theory Spec2Isabelle
  imports Main "HOL-Library.Word"
begin

section \<open>Strings\<close>

text \<open>
  A JavaScript string is a sequence of UTF-16 code units. Every character the
  program names in its replacement table lies in the Basic Multilingual Plane, so
  each is one code unit. ASCII literals of the program are written as HOL string
  literals and converted by \<open>js\<close>.
\<close>

type_synonym code_unit = "16 word"
type_synonym jsstring = "code_unit list"

definition js :: "string \<Rightarrow> jsstring" where
  "js s = map (\<lambda>c. of_nat (of_char c)) s"

text \<open>
  \<open>String.prototype.trim\<close> removes leading and trailing WhiteSpace and
  LineTerminator code units (ECMAScript: TAB, VT, FF, SP, NBSP, ZWNBSP, the
  category Zs, and LF, CR, LS, PS).
\<close>

definition is_js_space :: "code_unit \<Rightarrow> bool" where
  "is_js_space c \<longleftrightarrow>
     c \<in> {0x0009, 0x000A, 0x000B, 0x000C, 0x000D, 0x0020, 0x00A0, 0x1680,
          0x2000, 0x2001, 0x2002, 0x2003, 0x2004, 0x2005, 0x2006, 0x2007,
          0x2008, 0x2009, 0x200A, 0x2028, 0x2029, 0x202F, 0x205F, 0x3000, 0xFEFF}"

definition trim :: "jsstring \<Rightarrow> jsstring" where
  "trim s = rev (dropWhile is_js_space (rev (dropWhile is_js_space s)))"

section \<open>NormalizeEncoding\<close>

text \<open>
  \<open>s.replace(/ab/g, 'c')\<close> for a pattern of two literal code units: the
  string is scanned from the left, every match is replaced, and the scan goes on
  behind the match (matches do not overlap).
\<close>

fun replace_pair :: "'a \<Rightarrow> 'a \<Rightarrow> 'a \<Rightarrow> 'a list \<Rightarrow> 'a list" where
  "replace_pair a b c (x # y # zs) =
     (if x = a \<and> y = b then c # replace_pair a b c zs
      else x # replace_pair a b c (y # zs))"
| "replace_pair a b c xs = xs"

text \<open>
  The chain of \<open>.replace\<close> calls of \<open>NormalizeEncoding\<close>, in source order:
  (first unit of the pattern, second unit of the pattern, replacement).
\<close>

definition replacements :: "(code_unit \<times> code_unit \<times> code_unit) list" where
  "replacements =
    [(0x221A, 0xF2, 0xD8),
     (0x221A, 0xB6, 0xE6),
     (0x221A, 0xB6, 0xE5),
     (0x221A, 0x220F, 0xC5),
     (0x221A, 0xBA, 0xF8),
     (0x221A, 0xA7, 0xDF),
     (0x221A, 0xA9, 0xE9),
     (0x221A, 0xA8, 0xE8),
     (0x221A, 0xEE, 0xF6),
     (0x221A, 0xF1, 0xFC),
     (0x221A, 0xC4, 0xE4),
     (0x221A, 0xE1, 0xE1),
     (0x221A, 0xED, 0xED),
     (0x221A, 0xF3, 0xF3),
     (0x221A, 0xFA, 0xFA),
     (0x221A, 0xE0, 0xE0),
     (0x221A, 0xF9, 0xF9),
     (0x221A, 0xE2, 0xE2),
     (0x221A, 0xEA, 0xEA),
     (0x221A, 0xEE, 0xEE),
     (0x221A, 0xF4, 0xF4),
     (0x221A, 0xFB, 0xFB),
     (0x221A, 0xEB, 0xEB),
     (0x221A, 0xEF, 0xEF),
     (0x221A, 0xFF, 0xFF),
     (0x221A, 0xE6, 0xE6),
     (0x221A, 0xC6, 0xC6),
     (0x221A, 0xD8, 0xD8),
     (0x221A, 0xF6, 0xF6)]"

definition apply_rule :: "'a list \<Rightarrow> 'a \<times> 'a \<times> 'a \<Rightarrow> 'a list" where
  "apply_rule s r = (case r of (a, b, c) \<Rightarrow> replace_pair a b c s)"

definition apply_rules :: "('a \<times> 'a \<times> 'a) list \<Rightarrow> 'a list \<Rightarrow> 'a list" where
  "apply_rules rs s = foldl apply_rule s rs"

text \<open>
  \<open>text.trim().normalize('NFC').replace(...)...\<close>. Canonical composition is
  the runtime's, not the program's: it is the parameter \<open>nfc\<close>.
\<close>

definition NormalizeEncoding :: "(jsstring \<Rightarrow> jsstring) \<Rightarrow> jsstring \<Rightarrow> jsstring" where
  "NormalizeEncoding nfc text = apply_rules replacements (nfc (trim text))"

text \<open>
  The same chain without its third and twentieth call, whose patterns repeat the
  patterns of the second and the ninth call.
\<close>

definition replacements_unshadowed :: "(code_unit \<times> code_unit \<times> code_unit) list" where
  "replacements_unshadowed =
    [(0x221A, 0xF2, 0xD8),
     (0x221A, 0xB6, 0xE6),
     (0x221A, 0x220F, 0xC5),
     (0x221A, 0xBA, 0xF8),
     (0x221A, 0xA7, 0xDF),
     (0x221A, 0xA9, 0xE9),
     (0x221A, 0xA8, 0xE8),
     (0x221A, 0xEE, 0xF6),
     (0x221A, 0xF1, 0xFC),
     (0x221A, 0xC4, 0xE4),
     (0x221A, 0xE1, 0xE1),
     (0x221A, 0xED, 0xED),
     (0x221A, 0xF3, 0xF3),
     (0x221A, 0xFA, 0xFA),
     (0x221A, 0xE0, 0xE0),
     (0x221A, 0xF9, 0xF9),
     (0x221A, 0xE2, 0xE2),
     (0x221A, 0xEA, 0xEA),
     (0x221A, 0xF4, 0xF4),
     (0x221A, 0xFB, 0xFB),
     (0x221A, 0xEB, 0xEB),
     (0x221A, 0xEF, 0xEF),
     (0x221A, 0xFF, 0xFF),
     (0x221A, 0xE6, 0xE6),
     (0x221A, 0xC6, 0xC6),
     (0x221A, 0xD8, 0xD8),
     (0x221A, 0xF6, 0xF6)]"

definition NormalizeEncoding_unshadowed :: "(jsstring \<Rightarrow> jsstring) \<Rightarrow> jsstring \<Rightarrow> jsstring" where
  "NormalizeEncoding_unshadowed nfc text = apply_rules replacements_unshadowed (nfc (trim text))"

text \<open>
  \<open>no_occ a b xs\<close>: the pattern \<open>ab\<close> does not occur in \<open>xs\<close>.
\<close>

fun no_occ :: "'a \<Rightarrow> 'a \<Rightarrow> 'a list \<Rightarrow> bool" where
  "no_occ a b (x # y # zs) = (\<not> (x = a \<and> y = b) \<and> no_occ a b (y # zs))"
| "no_occ a b xs = True"

text \<open>Rules whose pattern starts with \<open>a\<close> and whose replacement is not \<open>a\<close>.\<close>

definition led_by :: "'a \<Rightarrow> ('a \<times> 'a \<times> 'a) list \<Rightarrow> bool" where
  "led_by a rs = list_all (\<lambda>(a', b, c). a' = a \<and> c \<noteq> a) rs"

text \<open>
  On a string whose code units all are starters with no canonical decomposition
  that combine with nothing (every code unit below U+0300 is one, and so is
  U+221A), \<open>normalize('NFC')\<close> returns the string itself. \<open>nfc_inert\<close> stands for
  the runtime's function at such strings, and is used at such strings only.
\<close>

definition nfc_inert :: "jsstring \<Rightarrow> jsstring" where
  "nfc_inert s = s"

section \<open>The document, as the program queries it\<close>

text \<open>
  One result row (\<open>.representation.overview.search\<close>), by what the queries made
  inside it return; \<open>None\<close> and \<open>False\<close> stand for \<open>null\<close>.
\<close>

record row =
  title_link :: "(jsstring \<times> jsstring) option"
    \<comment> \<open>\<open>.title h3 a.part-link\<close>: its \<open>textContent\<close> and its \<open>href\<close>\<close>
  author_links :: "jsstring list"
    \<comment> \<open>\<open>textContent\<close> of every \<open>li.author a.more-by-this-author\<close>\<close>
  date_span :: "jsstring option"
    \<comment> \<open>\<open>textContent\<close> of \<open>span.date\<close>\<close>
  citation_number :: "jsstring option"
    \<comment> \<open>\<open>textContent\<close> of \<open>a.listing-citation-modal span.number\<close>\<close>
  abstract_button :: bool
    \<comment> \<open>the button whose \<open>onclick\<close> starts with \<open>toggleViewHide(this, 'abstract\<close>\<close>
  abstract_content :: "jsstring option"
    \<comment> \<open>\<open>textContent\<close> of \<open>.abstract[data-abstract-type="normal"]\<close> in the row,
        once the button was clicked and the delay is over\<close>
  dialog_link :: bool
    \<comment> \<open>\<open>.citation .listing-citation-modal\<close>\<close>

text \<open>
  One document. \<open>dialog_download_link pg i\<close> is the \<open>href\<close> of the first
  \<open>a[href^="/core/services/aop-cambridge-core/download/cited-by"]\<close> of the whole
  document, once the dialog link of the row at position \<open>i\<close> was clicked and the
  delay is over.
\<close>

record page =
  results_view :: bool
    \<comment> \<open>\<open>document.querySelector("#maincontent")\<close>\<close>
  next_page :: bool
    \<comment> \<open>\<open>a[aria-label="Next page"]\<close> inside the results region\<close>
  rows :: "row list"
    \<comment> \<open>the rows inside the results region, in document order\<close>
  dialog_download_link :: "nat \<Rightarrow> jsstring option"

section \<open>The state of one run\<close>

text \<open>
  An object literal is the list of its properties in insertion order, which is
  the order of \<open>Object.keys\<close> and \<open>Object.values\<close>.
\<close>

type_synonym entry = "(string \<times> jsstring) list"

text \<open>What the run does to the console, the timer and the document.\<close>

datatype event =
    Console_clear
  | Console_log jsstring
  | Console_warn jsstring
  | Console_log_json "entry list"
  | Click_next_page nat
  | Click_abstract
  | Click_dialog
  | Wait nat
  | Download jsstring jsstring

text \<open>
  The variables of \<open>automate_aspr\<close> that its inner functions share. A next-page
  link is named by the number of the page it was found on.
\<close>

record state =
  aspr_data :: "entry list"
  next_page_link :: "nat option"
  page_count :: nat
  errors :: "jsstring list"
  warnings :: "jsstring list"
  events :: "event list"

datatype js_error = TypeError

definition base_load_buffer_ms :: nat where
  "base_load_buffer_ms = 2500"

section \<open>Helpers of the runtime\<close>

text \<open>A number of type nat as JavaScript prints it.\<close>

fun dec :: "nat \<Rightarrow> string" where
  "dec n = (if n < 10 then [char_of (48 + n)] else dec (n div 10) @ [char_of (48 + n mod 10)])"

text \<open>\<open>Array.prototype.join\<close>.\<close>

fun join :: "'a list \<Rightarrow> 'a list list \<Rightarrow> 'a list" where
  "join sep [] = []"
| "join sep [x] = x"
| "join sep (x # y # ys) = x @ sep @ join sep (y # ys)"

definition NA :: jsstring where
  "NA = js ''N/A''"

section \<open>ConsoleErrorsAndWarnings\<close>

definition numbered :: "string \<Rightarrow> jsstring list \<Rightarrow> event list" where
  "numbered label xs =
     map (\<lambda>(i, x). Console_log ([0x09] @ js label @ js '' #'' @ js (dec i) @ js '': '' @ x))
       (enumerate 0 xs)"

definition report :: "jsstring list \<Rightarrow> jsstring list \<Rightarrow> event list" where
  "report es ws =
     (if es \<noteq> [] then Console_log ([0x0A] @ js ''Errors:'') # numbered ''Error'' es else []) @
     (if ws \<noteq> [] then Console_log ([0x0A] @ js ''Warnings:'') # numbered ''Warning'' ws else [])"

definition ConsoleErrorsAndWarnings :: "state \<Rightarrow> state" where
  "ConsoleErrorsAndWarnings st = st\<lparr>events := events st @ report (errors st) (warnings st)\<rparr>"

section \<open>DownlaodResultsAsCSV\<close>

definition quoted :: "jsstring \<Rightarrow> jsstring" where
  "quoted v = [0x22] @ v @ [0x22]"

definition csv_content :: "entry \<Rightarrow> entry list \<Rightarrow> jsstring" where
  "csv_content first jsonData =
     (let headers = join (js '','') (map (\<lambda>kv. js (fst kv)) first) @ [0x0A];
          csv_rows = join [0x0A] (map (\<lambda>row. join (js '','') (map (\<lambda>kv. quoted (snd kv)) row)) jsonData);
          csv_content = headers @ csv_rows
      in 0xFEFF # csv_content)"

text \<open>
  The blob of the content is handed to the browser as a download named
  \<open>filename\<close>, through a temporary link: the event \<open>Download\<close>.
\<close>

definition DownlaodResultsAsCSV :: "entry list \<Rightarrow> jsstring \<Rightarrow> state \<Rightarrow> state" where
  "DownlaodResultsAsCSV jsonData filename st =
     (case jsonData of
        [] \<Rightarrow> st\<lparr>events := events st @ [Console_warn (js ''No data available to download.'')]\<rparr>
      | first # _ \<Rightarrow> st\<lparr>events := events st @ [Download filename (csv_content first jsonData)]\<rparr>)"

section \<open>RetrieveAbstract and RetrieveCitingPapersLink\<close>

text \<open>
  Each returns a promise that the caller awaits at once: the model returns the
  value the promise resolves to, and the state when it resolves.
\<close>

definition RetrieveAbstract ::
  "(jsstring \<Rightarrow> jsstring) \<Rightarrow> row \<Rightarrow> jsstring \<Rightarrow> state \<Rightarrow> jsstring \<times> state" where
  "RetrieveAbstract nfc r title st =
     (if \<not> abstract_button r then
        (NA, st\<lparr>warnings := warnings st @
                 [js ''Abstract extraction failed for '' @ [0x22] @ title @ [0x22, 0x2E]]\<rparr>)
      else
        let st1 = st\<lparr>events := events st @ [Click_abstract, Wait base_load_buffer_ms]\<rparr> in
        (case abstract_content r of
           None \<Rightarrow>
             (NA, st1\<lparr>warnings := warnings st1 @
                     [js ''Abstract not found for '' @ [0x22] @ title @ [0x22, 0x2E]]\<rparr>)
         | Some abstract_text \<Rightarrow> (NormalizeEncoding nfc abstract_text, st1)))"

definition RetrieveCitingPapersLink ::
  "page \<Rightarrow> nat \<Rightarrow> row \<Rightarrow> jsstring \<Rightarrow> state \<Rightarrow> jsstring \<times> state" where
  "RetrieveCitingPapersLink pg i r title st =
     (if \<not> dialog_link r then
        (NA, st\<lparr>warnings := warnings st @
                 [js ''Popup initiation failed for '' @ [0x22] @ title @ [0x22, 0x2E]]\<rparr>)
      else
        let st1 = st\<lparr>events := events st @ [Click_dialog, Wait base_load_buffer_ms]\<rparr> in
        (case dialog_download_link pg i of
           None \<Rightarrow>
             (NA, st1\<lparr>warnings := warnings st1 @
                     [js ''Download link not found for '' @ [0x22] @ title @ [0x22, 0x2E]]\<rparr>)
         | Some link \<Rightarrow> (link, st1)))"

section \<open>collect_aspr_page_data\<close>

definition make_entry ::
  "jsstring \<Rightarrow> jsstring \<Rightarrow> jsstring \<Rightarrow> jsstring \<Rightarrow> jsstring \<Rightarrow> jsstring \<Rightarrow> jsstring \<Rightarrow> entry" where
  "make_entry title authors published_online_date cited_by_count abstract article_link
       all_citing_papers_link =
     [(''title'', title),
      (''authors'', authors),
      (''published_online_date'', published_online_date),
      (''cited_by_count'', cited_by_count),
      (''abstract'', abstract),
      (''article_link'', article_link),
      (''all_citing_papers_link'', all_citing_papers_link)]"

text \<open>
  The \<open>for\<close> loop over the rows of the page \<open>pg\<close>; \<open>i\<close> is the position of the
  next row. Reading \<open>textContent\<close> or \<open>href\<close> of \<open>null\<close> throws a TypeError, which
  nothing in the program catches.
\<close>

fun collect_rows ::
  "(jsstring \<Rightarrow> jsstring) \<Rightarrow> nat \<Rightarrow> page \<Rightarrow> nat \<Rightarrow> row list \<Rightarrow> state \<Rightarrow> js_error + state" where
  "collect_rows nfc collection_count pg i [] st = Inr st"
| "collect_rows nfc collection_count pg i (current_row # rest) st =
     (if length (aspr_data st) \<ge> collection_count then Inr st
      else
        (case title_link current_row of
           None \<Rightarrow> Inl TypeError
         | Some (title_text, href) \<Rightarrow>
             let title = NormalizeEncoding nfc title_text;
                 authors = NormalizeEncoding nfc (join (js '', '') (map trim (author_links current_row)))
             in
             (case date_span current_row of
                None \<Rightarrow> Inl TypeError
              | Some date_text \<Rightarrow>
                  (case citation_number current_row of
                     None \<Rightarrow> Inl TypeError
                   | Some number_text \<Rightarrow>
                       let published_online_date = trim date_text;
                           cited_by_count = trim number_text;
                           article_link = href;
                           (abstract, st1) = RetrieveAbstract nfc current_row title st;
                           (all_citing_papers_link, st2) =
                              RetrieveCitingPapersLink pg i current_row title st1
                       in collect_rows nfc collection_count pg (Suc i) rest
                            (st2\<lparr>aspr_data := aspr_data st2 @
                               [make_entry title authors published_online_date cited_by_count
                                  abstract article_link all_citing_papers_link]\<rparr>)))))"

text \<open>
  \<open>doc k\<close> is the document the program finds after \<open>k\<close> clicks on a next-page
  link; \<open>page_count\<close> counts these clicks.
\<close>

definition collect_aspr_page_data ::
  "(jsstring \<Rightarrow> jsstring) \<Rightarrow> (nat \<Rightarrow> page) \<Rightarrow> nat \<Rightarrow> state \<Rightarrow> js_error + state" where
  "collect_aspr_page_data nfc doc collection_count st =
     (let pg = doc (page_count st) in
      if \<not> results_view pg then
        Inr (ConsoleErrorsAndWarnings
               (st\<lparr>errors := errors st @ [js ''Selector #maincontent NOT found.'']\<rparr>))
      else
        let st1 = st\<lparr>next_page_link := (if next_page pg then Some (page_count st) else None)\<rparr> in
        if next_page_link st1 = None then
          Inr (ConsoleErrorsAndWarnings
                 (st1\<lparr>warnings := warnings st1 @
                    [js ''Next page link NOT found. Collection quantity may run short.'']\<rparr>))
        else if rows pg = [] then
          Inr (ConsoleErrorsAndWarnings
                 (st1\<lparr>errors := errors st1 @ [js ''No search results found.'']\<rparr>))
        else collect_rows nfc collection_count pg 0 (rows pg) st1)"

section \<open>collect_aspr_data\<close>

text \<open>
  The \<open>while\<close> loop. It need not end, so its result is an option: \<open>None\<close> when the
  loop runs forever, \<open>Some (Inl e)\<close> when \<open>e\<close> is thrown, \<open>Some (Inr st)\<close> when it is
  left in the state \<open>st\<close>.
\<close>

partial_function (option) collect_loop ::
  "(jsstring \<Rightarrow> jsstring) \<Rightarrow> (nat \<Rightarrow> page) \<Rightarrow> nat \<Rightarrow> state \<Rightarrow> (js_error + state) option" where
  "collect_loop nfc doc collection_count st =
     (if length (aspr_data st) < collection_count then
        (case collect_aspr_page_data nfc doc collection_count st of
           Inl e \<Rightarrow> Some (Inl e)
         | Inr st1 \<Rightarrow>
             if length (aspr_data st1) \<ge> collection_count then Some (Inr st1)
             else
               (case next_page_link st1 of
                  None \<Rightarrow>
                    Some (Inr (st1\<lparr>errors := errors st1 @
                       [js ''Next page link not found on page '' @ js (dec (page_count st1)) @ js ''.'']\<rparr>))
                | Some link \<Rightarrow>
                    collect_loop nfc doc collection_count
                      (st1\<lparr>events := events st1 @ [Click_next_page link, Wait (2 * base_load_buffer_ms)],
                          page_count := Suc (page_count st1)\<rparr>)))
      else Some (Inr st))"

declare collect_loop.simps [code]

text \<open>What follows the loop: the dump of the records, the export, the report.\<close>

definition finish :: "state \<Rightarrow> state" where
  "finish st =
     ConsoleErrorsAndWarnings
       (DownlaodResultsAsCSV (aspr_data st) (js ''apsr_results.csv'')
          (st\<lparr>events := events st @ [Console_log_json (aspr_data st)]\<rparr>))"

definition collect_aspr_data ::
  "(jsstring \<Rightarrow> jsstring) \<Rightarrow> (nat \<Rightarrow> page) \<Rightarrow> nat \<Rightarrow> state \<Rightarrow> (js_error + state) option" where
  "collect_aspr_data nfc doc collection_count st =
     (case collect_loop nfc doc collection_count st of
        None \<Rightarrow> None
      | Some (Inl e) \<Rightarrow> Some (Inl e)
      | Some (Inr st1) \<Rightarrow> Some (Inr (finish st1)))"

section \<open>automate_aspr\<close>

definition initial_state :: state where
  "initial_state =
     \<lparr>aspr_data = [], next_page_link = None, page_count = 0, errors = [], warnings = [],
      events = []\<rparr>"

definition automate_aspr ::
  "(jsstring \<Rightarrow> jsstring) \<Rightarrow> (nat \<Rightarrow> page) \<Rightarrow> nat \<Rightarrow> (js_error + state) option" where
  "automate_aspr nfc doc collection_count =
     collect_aspr_data nfc doc collection_count (initial_state\<lparr>events := [Console_clear]\<rparr>)"

section \<open>Notions used by the statements\<close>

text \<open>The keys of the object literal that the row loop pushes.\<close>

definition entry_keys :: "string list" where
  "entry_keys = [''title'', ''authors'', ''published_online_date'', ''cited_by_count'',
     ''abstract'', ''article_link'', ''all_citing_papers_link'']"

text \<open>A row whose title link, date and citation number are there: reading it throws nothing.\<close>

definition complete_row :: "row \<Rightarrow> bool" where
  "complete_row r \<longleftrightarrow> title_link r \<noteq> None \<and> date_span r \<noteq> None \<and> citation_number r \<noteq> None"

text \<open>
  Concrete documents for the examples: a row with everything in place, a page of
  \<open>n\<close> such rows with or without a next-page link, and a document without the
  results region.
\<close>

definition full_row :: row where
  "full_row =
     \<lparr>title_link = Some (js '' T '', js ''/a''), author_links = [js ''A '', js ''B''],
      date_span = Some (js '' 2020''), citation_number = Some (js ''7''),
      abstract_button = True, abstract_content = Some (js ''S''), dialog_link = True\<rparr>"

definition listing :: "nat \<Rightarrow> bool \<Rightarrow> page" where
  "listing n has_next =
     \<lparr>results_view = True, next_page = has_next, rows = replicate n full_row,
      dialog_download_link = (\<lambda>i. Some (js ''/c''))\<rparr>"

definition no_region :: page where
  "no_region =
     \<lparr>results_view = False, next_page = False, rows = [], dialog_download_link = (\<lambda>i. None)\<rparr>"

text \<open>The record that the row loop makes of \<open>full_row\<close>.\<close>

definition full_entry :: entry where
  "full_entry = make_entry (js ''T'') (js ''A, B'') (js ''2020'') (js ''7'') (js ''S'') (js ''/a'') (js ''/c'')"

text \<open>What the two retrievals do for a row that has both controls.\<close>

definition reveal :: "event list" where
  "reveal = [Click_abstract, Wait base_load_buffer_ms, Click_dialog, Wait base_load_buffer_ms]"

text \<open>A page on which the collector pushes an error: no results region, or no row.\<close>

definition fatal_page :: "page \<Rightarrow> bool" where
  "fatal_page pg \<longleftrightarrow> \<not> results_view pg \<or> (next_page pg \<and> rows pg = [])"

text \<open>The error it pushes.\<close>

definition fatal_message :: "page \<Rightarrow> jsstring" where
  "fatal_message pg =
     (if results_view pg then js ''No search results found.''
      else js ''Selector #maincontent NOT found.'')"

text \<open>The state in which the collector returns from such a page.\<close>

definition after_fatal_page :: "page \<Rightarrow> state \<Rightarrow> state" where
  "after_fatal_page pg st =
     ConsoleErrorsAndWarnings
       (st\<lparr>next_page_link := (if results_view pg then Some (page_count st) else next_page_link st),
           errors := errors st @ [fatal_message pg]\<rparr>)"

text \<open>The \<open>else\<close> branch of the loop: click, wait, count.\<close>

definition advance :: "nat \<Rightarrow> state \<Rightarrow> state" where
  "advance link st =
     st\<lparr>events := events st @ [Click_next_page link, Wait (2 * base_load_buffer_ms)],
        page_count := Suc (page_count st)\<rparr>"

text \<open>The branch of the loop that pushes its error and breaks.\<close>

definition no_next_link :: "state \<Rightarrow> state" where
  "no_next_link st =
     st\<lparr>errors := errors st @
        [js ''Next page link not found on page '' @ js (dec (page_count st)) @ js ''.'']\<rparr>"

section \<open>Facts about the replacement chain\<close>

lemma replace_pair_absent: "no_occ a b xs \<Longrightarrow> replace_pair a b c xs = xs"
  by (induction a b c xs rule: replace_pair.induct) auto

lemma replace_pair_head:
  "replace_pair a b c (x # xs) = x # replace_pair a b c xs \<or>
   (\<exists>zs. xs = b # zs \<and> x = a \<and> replace_pair a b c (x # xs) = c # replace_pair a b c zs)"
  by (cases xs) auto

lemma no_occ_Cons:
  "no_occ a b (x # xs) \<longleftrightarrow>
     (x = a \<longrightarrow> (case xs of [] \<Rightarrow> True | y # _ \<Rightarrow> y \<noteq> b)) \<and> no_occ a b xs"
  by (cases xs) auto

lemma no_occ_replace_self:
  "c \<noteq> a \<Longrightarrow> c \<noteq> b \<Longrightarrow> no_occ a b (replace_pair a b c xs)"
proof (induction a b c xs rule: replace_pair.induct)
  case (1 a b c x y zs)
  show ?case
  proof (cases "x = a \<and> y = b")
    case True
    with 1 show ?thesis by (simp add: no_occ_Cons)
  next
    case False
    with 1 have ih: "no_occ a b (replace_pair a b c (y # zs))" by simp
    have step: "replace_pair a b c (x # y # zs) = x # replace_pair a b c (y # zs)"
      using False by auto
    from replace_pair_head[of a b c y zs] False 1(3,4) ih show ?thesis
      unfolding step by (auto simp add: no_occ_Cons simp del: replace_pair.simps)
  qed
qed simp_all

lemma no_occ_replace_other:
  "no_occ a b xs \<Longrightarrow> c \<noteq> a \<Longrightarrow> c \<noteq> b \<Longrightarrow> no_occ a b (replace_pair a' b' c xs)"
proof (induction a' b' c xs rule: replace_pair.induct)
  case (1 a' b' c x y zs)
  show ?case
  proof (cases "x = a' \<and> y = b'")
    case True
    with 1 show ?thesis by (simp add: no_occ_Cons)
  next
    case False
    with 1 have ih: "no_occ a b (replace_pair a' b' c (y # zs))" by simp
    have step: "replace_pair a' b' c (x # y # zs) = x # replace_pair a' b' c (y # zs)"
      using False by auto
    from replace_pair_head[of a' b' c y zs] False 1(3,4,5) ih show ?thesis
      unfolding step by (auto simp add: no_occ_Cons simp del: replace_pair.simps)
  qed
qed simp_all

lemma no_occ_replace_undoubled:
  "no_occ a a xs \<Longrightarrow> c \<noteq> a \<Longrightarrow> b = b' \<or> no_occ a b xs \<Longrightarrow>
   no_occ a b (replace_pair a b' c xs)"
proof (induction a b' c xs rule: replace_pair.induct)
  case (1 a b' c x y zs)
  show ?case
  proof (cases "x = a \<and> y = b'")
    case True
    with 1 show ?thesis by (auto simp add: no_occ_Cons)
  next
    case False
    with 1 have ih: "no_occ a b (replace_pair a b' c (y # zs))" by auto
    have step: "replace_pair a b' c (x # y # zs) = x # replace_pair a b' c (y # zs)"
      using False by auto
    from replace_pair_head[of a b' c y zs] False 1(3,4,5) ih show ?thesis
      unfolding step by (auto simp add: no_occ_Cons simp del: replace_pair.simps)
  qed
qed simp_all

lemma apply_rules_Nil [simp]: "apply_rules [] s = s"
  by (simp add: apply_rules_def)

lemma apply_rules_Cons [simp]:
  "apply_rules ((a, b, c) # rs) s = apply_rules rs (replace_pair a b c s)"
  by (simp add: apply_rules_def apply_rule_def)

lemma apply_rules_append: "apply_rules (rs @ rs') s = apply_rules rs' (apply_rules rs s)"
  by (simp add: apply_rules_def)

lemma apply_rules_absent:
  "list_all (\<lambda>(a, b, c). no_occ a b s) rs \<Longrightarrow> apply_rules rs s = s"
  by (induction rs) (auto simp add: replace_pair_absent)

lemma apply_rules_keeps_absent:
  "led_by a rs \<Longrightarrow> no_occ a a s \<Longrightarrow> no_occ a b s \<Longrightarrow> no_occ a b (apply_rules rs s)"
proof (induction rs arbitrary: s)
  case Nil
  then show ?case by simp
next
  case (Cons r rs)
  obtain a' b' c where r: "r = (a', b', c)" by (cases r)
  from Cons.prems r have a': "a' = a" and c: "c \<noteq> a" and rs: "led_by a rs"
    by (simp_all add: led_by_def)
  have "no_occ a a (replace_pair a b' c s)"
    by (rule no_occ_replace_undoubled[OF Cons.prems(2) c]) (simp add: Cons.prems)
  moreover have "no_occ a b (replace_pair a b' c s)"
    by (rule no_occ_replace_undoubled[OF Cons.prems(2) c]) (simp add: Cons.prems)
  ultimately show ?case
    using Cons.IH[OF rs] by (simp add: r a')
qed

lemma apply_rules_removes:
  "led_by a rs \<Longrightarrow> no_occ a a s \<Longrightarrow> list_all (\<lambda>(a', b, c). no_occ a' b (apply_rules rs s)) rs"
proof (induction rs arbitrary: s)
  case Nil
  then show ?case by simp
next
  case (Cons r rs)
  obtain a' b' c where r: "r = (a', b', c)" by (cases r)
  from Cons.prems r have a': "a' = a" and c: "c \<noteq> a" and rs: "led_by a rs"
    by (simp_all add: led_by_def)
  have nn: "no_occ a a (replace_pair a b' c s)"
    by (rule no_occ_replace_undoubled[OF Cons.prems(2) c]) (simp add: Cons.prems)
  have "no_occ a b' (replace_pair a b' c s)"
    by (rule no_occ_replace_undoubled[OF Cons.prems(2) c]) (simp add: Cons.prems)
  with rs nn have "no_occ a b' (apply_rules rs (replace_pair a b' c s))"
    by (rule apply_rules_keeps_absent)
  with Cons.IH[OF rs nn] show ?case
    by (simp add: r a')
qed

lemma apply_rules_twice:
  assumes "led_by a rs" and "no_occ a a s"
  shows "apply_rules rs (apply_rules rs s) = apply_rules rs s"
  using apply_rules_removes[OF assms] by (rule apply_rules_absent)

lemma replacements_led: "led_by 0x221A replacements"
  by (simp add: led_by_def replacements_def)


lemma apply_rules_keeps_absent_other:
  "list_all (\<lambda>(a', b', c). c \<noteq> a \<and> c \<noteq> b) rs \<Longrightarrow> no_occ a b s \<Longrightarrow>
   no_occ a b (apply_rules rs s)"
  by (induction rs arbitrary: s) (auto simp add: no_occ_replace_other)

lemma third_call_inert:
  "apply_rule (apply_rules (take 2 replacements) s) (replacements ! 2) =
   apply_rules (take 2 replacements) s"
proof -
  have "no_occ (0x221A :: code_unit) 0xB6 (replace_pair 0x221A 0xB6 0xE6 t)" for t
    by (rule no_occ_replace_self) simp_all
  then show ?thesis
    by (simp add: replacements_def apply_rule_def replace_pair_absent)
qed

lemma twentieth_call_inert:
  "apply_rule (apply_rules (take 19 replacements) s) (replacements ! 19) =
   apply_rules (take 19 replacements) s"
proof -
  have split: "take 19 replacements =
      take 8 replacements @ [(0x221A, 0xEE, 0xF6)] @ take 10 (drop 9 replacements)"
    by (simp add: replacements_def)
  have "no_occ (0x221A :: code_unit) 0xEE (replace_pair 0x221A 0xEE 0xF6 t)" for t
    by (rule no_occ_replace_self) simp_all
  then have "no_occ (0x221A :: code_unit) 0xEE
      (apply_rules (take 10 (drop 9 replacements)) (replace_pair 0x221A 0xEE 0xF6 t))" for t
    by (intro apply_rules_keeps_absent_other) (simp_all add: replacements_def)
  then have "no_occ (0x221A :: code_unit) 0xEE (apply_rules (take 19 replacements) s)"
    unfolding split by (simp add: apply_rules_append)
  moreover have "replacements ! 19 = (0x221A, 0xEE, 0xEE)"
    by (simp add: replacements_def)
  ultimately show ?thesis
    by (simp add: apply_rule_def replace_pair_absent)
qed

lemma apply_rules_single: "apply_rules [r] s = apply_rule s r"
  by (simp add: apply_rules_def)

lemma apply_rules_unshadowed:
  "apply_rules replacements s = apply_rules replacements_unshadowed s"
proof -
  let ?A = "take 2 replacements" and ?B = "take 16 (drop 3 replacements)"
    and ?C = "drop 20 replacements"
  have all: "replacements = ?A @ [replacements ! 2] @ ?B @ [replacements ! 19] @ ?C"
    by (simp add: replacements_def)
  have t19: "take 19 replacements = ?A @ [replacements ! 2] @ ?B"
    by (simp add: replacements_def)
  have un: "replacements_unshadowed = ?A @ ?B @ ?C"
    by (simp add: replacements_def replacements_unshadowed_def)
  have a: "apply_rules [replacements ! 2] (apply_rules ?A s) = apply_rules ?A s"
    by (simp only: apply_rules_single third_call_inert)
  have "apply_rules [replacements ! 19] (apply_rules (take 19 replacements) s) =
        apply_rules (take 19 replacements) s"
    by (simp only: apply_rules_single twentieth_call_inert)
  then have b: "apply_rules [replacements ! 19] (apply_rules ?B (apply_rules ?A s)) =
        apply_rules ?B (apply_rules ?A s)"
    by (simp only: t19 apply_rules_append a)
  have "apply_rules (?A @ [replacements ! 2] @ ?B @ [replacements ! 19] @ ?C) s =
        apply_rules (?A @ ?B @ ?C) s"
    by (simp only: apply_rules_append a b)
  then show ?thesis
    by (simp only: all[symmetric] un[symmetric])
qed

section \<open>Facts about one occurrence of a pattern\<close>

lemma replace_pair_skip: "q \<noteq> a \<Longrightarrow> replace_pair a b c (q # ys) = q # replace_pair a b c ys"
  by (cases ys) simp_all

lemma replace_pair_append:
  "p \<noteq> b \<Longrightarrow>
   replace_pair a b c (xs @ p # ys) = replace_pair a b c xs @ replace_pair a b c (p # ys)"
  by (induction a b c xs rule: replace_pair.induct) auto

lemma replace_pair_around:
  "m \<noteq> a \<Longrightarrow> m \<noteq> b \<Longrightarrow>
   replace_pair a b c (xs @ m # ys) = replace_pair a b c xs @ m # replace_pair a b c ys"
  by (subst replace_pair_append) (simp_all add: replace_pair_skip)

lemma replace_pair_around_pair:
  "p \<noteq> b \<Longrightarrow> q \<noteq> a \<Longrightarrow> \<not> (p = a \<and> q = b) \<Longrightarrow>
   replace_pair a b c (xs @ p # q # ys) = replace_pair a b c xs @ p # q # replace_pair a b c ys"
  by (subst replace_pair_append) (auto simp add: replace_pair_skip)

lemma replace_pair_match:
  "a \<noteq> b \<Longrightarrow>
   replace_pair a b c (xs @ a # b # ys) = replace_pair a b c xs @ c # replace_pair a b c ys"
  by (subst replace_pair_append) simp_all

lemma replace_pair_before_Nil:
  "m \<noteq> a \<Longrightarrow> \<exists>zs. replace_pair a b c ([] @ m # ys) = zs @ m # replace_pair a b c ys"
proof -
  assume "m \<noteq> a"
  then have "replace_pair a b c ([] @ m # ys) = [] @ m # replace_pair a b c ys"
    by (simp add: replace_pair_skip)
  then show ?thesis by (rule exI)
qed

lemma replace_pair_before_single:
  assumes "m \<noteq> a" and "b = m \<longrightarrow> c = m"
  shows "\<exists>zs. replace_pair a b c ([v] @ m # ys) = zs @ m # replace_pair a b c ys"
proof (cases "v = a \<and> m = b")
  case True
  with assms have "replace_pair a b c ([v] @ m # ys) = [] @ m # replace_pair a b c ys"
    by simp
  then show ?thesis by (rule exI)
next
  case False
  with assms have "replace_pair a b c ([v] @ m # ys) = [v] @ m # replace_pair a b c ys"
    by (auto simp add: replace_pair_skip)
  then show ?thesis by (rule exI)
qed

lemma replace_pair_before:
  "m \<noteq> a \<Longrightarrow> (b = m \<longrightarrow> c = m) \<Longrightarrow>
   \<exists>zs. replace_pair a b c (xs @ m # ys) = zs @ m # replace_pair a b c ys"
proof (induction a b c xs rule: replace_pair.induct)
  case (1 a b c x y zs)
  show ?case
  proof (cases "x = a \<and> y = b")
    case True
    with 1 obtain ws where "replace_pair a b c (zs @ m # ys) = ws @ m # replace_pair a b c ys"
      by blast
    with True have "replace_pair a b c ((x # y # zs) @ m # ys) =
        (c # ws) @ m # replace_pair a b c ys"
      by simp
    then show ?thesis by (rule exI)
  next
    case False
    with 1 obtain ws where
      "replace_pair a b c ((y # zs) @ m # ys) = ws @ m # replace_pair a b c ys"
      by blast
    with False have "replace_pair a b c ((x # y # zs) @ m # ys) =
        (x # ws) @ m # replace_pair a b c ys"
      by auto
    then show ?thesis by (rule exI)
  qed
qed (erule replace_pair_before_Nil, erule replace_pair_before_single, assumption)

lemma apply_rules_around:
  "list_all (\<lambda>(a, b, c). m \<noteq> a \<and> m \<noteq> b) rs \<Longrightarrow>
   apply_rules rs (xs @ m # ys) = apply_rules rs xs @ m # apply_rules rs ys"
  by (induction rs arbitrary: xs ys) (auto simp add: replace_pair_around)

lemma apply_rules_around_pair:
  "list_all (\<lambda>(a, b, c). p \<noteq> b \<and> q \<noteq> a \<and> \<not> (p = a \<and> q = b)) rs \<Longrightarrow>
   apply_rules rs (xs @ p # q # ys) = apply_rules rs xs @ p # q # apply_rules rs ys"
  by (induction rs arbitrary: xs ys) (auto simp add: replace_pair_around_pair)

lemma apply_rules_before:
  "list_all (\<lambda>(a, b, c). m \<noteq> a \<and> (b = m \<longrightarrow> c = m)) rs \<Longrightarrow>
   \<exists>zs. apply_rules rs (xs @ m # ys) = zs @ m # apply_rules rs ys"
proof (induction rs arbitrary: xs ys)
  case Nil
  have "apply_rules [] (xs @ m # ys) = xs @ m # apply_rules [] ys"
    by simp
  then show ?case by (rule exI)
next
  case (Cons r rs)
  obtain a b c where r: "r = (a, b, c)" by (cases r)
  from Cons.prems r have ma: "m \<noteq> a" and bm: "b = m \<longrightarrow> c = m"
    and rs: "list_all (\<lambda>(a, b, c). m \<noteq> a \<and> (b = m \<longrightarrow> c = m)) rs"
    by simp_all
  from replace_pair_before[OF ma bm, of xs ys] obtain zs where
    first: "replace_pair a b c (xs @ m # ys) = zs @ m # replace_pair a b c ys"
    by (rule exE)
  from Cons.IH[OF rs, of zs "replace_pair a b c ys"] obtain ws where
    "apply_rules rs (zs @ m # replace_pair a b c ys) =
     ws @ m # apply_rules rs (replace_pair a b c ys)"
    by (rule exE)
  then have "apply_rules (r # rs) (xs @ m # ys) = ws @ m # apply_rules (r # rs) ys"
    by (simp only: r apply_rules_Cons first)
  then show ?case by (rule exI)
qed


text \<open>
  A rule list with the rule \<open>(a, b, c)\<close> in it, such that no rule before it touches an
  occurrence of \<open>ab\<close> or a \<open>c\<close>, and every rule behind it leaves a \<open>c\<close> where it is:
  an occurrence of \<open>ab\<close> in the input comes out as \<open>c\<close>.
\<close>

lemma occurrence_first_half:
  assumes "a \<noteq> b"
    and "list_all (\<lambda>(a', b', c'). a \<noteq> b' \<and> b \<noteq> a' \<and> \<not> (a = a' \<and> b = b')) pre"
    and "list_all (\<lambda>(a', b', c'). c \<noteq> a' \<and> c \<noteq> b') pre"
    and "c \<noteq> a" and "c \<noteq> b"
  shows "apply_rules (pre @ [(a, b, c)]) (u @ a # b # v) =
           apply_rules (pre @ [(a, b, c)]) u @ c # apply_rules (pre @ [(a, b, c)]) v"
    and "apply_rules (pre @ [(a, b, c)]) (u @ c # v) =
           apply_rules (pre @ [(a, b, c)]) u @ c # apply_rules (pre @ [(a, b, c)]) v"
proof -
  show "apply_rules (pre @ [(a, b, c)]) (u @ a # b # v) =
        apply_rules (pre @ [(a, b, c)]) u @ c # apply_rules (pre @ [(a, b, c)]) v"
    using assms(1)
    by (simp add: apply_rules_append apply_rules_around_pair[OF assms(2)] replace_pair_match)
  show "apply_rules (pre @ [(a, b, c)]) (u @ c # v) =
        apply_rules (pre @ [(a, b, c)]) u @ c # apply_rules (pre @ [(a, b, c)]) v"
    using assms(4,5)
    by (simp add: apply_rules_append apply_rules_around[OF assms(3)] replace_pair_around)
qed

lemma occurrence_replaced:
  assumes "rs = (pre @ [(a, b, c)]) @ post" and "a \<noteq> b"
    and "list_all (\<lambda>(a', b', c'). a \<noteq> b' \<and> b \<noteq> a' \<and> \<not> (a = a' \<and> b = b')) pre"
    and "list_all (\<lambda>(a', b', c'). c \<noteq> a' \<and> c \<noteq> b') pre"
    and "c \<noteq> a" and "c \<noteq> b"
    and "list_all (\<lambda>(a', b', c'). c \<noteq> a' \<and> (b' = c \<longrightarrow> c' = c)) post"
  shows "apply_rules rs (u @ a # b # v) = apply_rules rs (u @ c # v) \<and>
         (\<exists>zs. apply_rules rs (u @ a # b # v) = zs @ c # apply_rules rs v)"
proof -
  note half = occurrence_first_half[OF assms(2-6), of u v]
  have eq: "apply_rules rs (u @ a # b # v) = apply_rules rs (u @ c # v)"
    by (simp only: assms(1) apply_rules_append[of "pre @ [(a, b, c)]" post] half)
  from apply_rules_before[OF assms(7), of "apply_rules (pre @ [(a, b, c)]) u"
      "apply_rules (pre @ [(a, b, c)]) v"]
  obtain zs where
    "apply_rules post (apply_rules (pre @ [(a, b, c)]) u @ c # apply_rules (pre @ [(a, b, c)]) v) =
     zs @ c # apply_rules post (apply_rules (pre @ [(a, b, c)]) v)"
    by (rule exE)
  then have "apply_rules rs (u @ a # b # v) = zs @ c # apply_rules rs v"
    by (simp only: assms(1) apply_rules_append[of "pre @ [(a, b, c)]" post] half)
  then have "\<exists>zs. apply_rules rs (u @ a # b # v) = zs @ c # apply_rules rs v"
    by (rule exI)
  with eq show ?thesis by (rule conjI)
qed

lemma pilcrow_replaced:
  "apply_rules replacements (u @ 0x221A # 0xB6 # v) = apply_rules replacements (u @ 0xE6 # v) \<and>
   (\<exists>zs. apply_rules replacements (u @ 0x221A # 0xB6 # v) =
      zs @ 0xE6 # apply_rules replacements v)"
  by (rule occurrence_replaced[where pre = "take 1 replacements" and post = "drop 2 replacements"])
    (simp_all add: replacements_def)

lemma i_circumflex_replaced:
  "apply_rules replacements (u @ 0x221A # 0xEE # v) = apply_rules replacements (u @ 0xF6 # v) \<and>
   (\<exists>zs. apply_rules replacements (u @ 0x221A # 0xEE # v) =
      zs @ 0xF6 # apply_rules replacements v)"
  by (rule occurrence_replaced[where pre = "take 8 replacements" and post = "drop 9 replacements"])
    (simp_all add: replacements_def)

section \<open>The claims about NormalizeEncoding\<close>

text \<open>
  C9. The third call of the chain (pattern U+221A U+00B6, replacement U+00E5) and the
  twentieth (pattern U+221A U+00EE, replacement U+00EE) never change their input: the
  second and the ninth call have the same patterns and leave no occurrence of them,
  and no call in between brings one back. So for every function \<open>nfc\<close> and every
  string, the chain computes what the chain without these two calls computes. And
  every occurrence of U+221A U+00B6 in the string the chain is applied to is replaced
  by U+00E6, every occurrence of U+221A U+00EE by U+00F6: the chain gives the same
  result as on the string with U+00E6 (U+00F6) in the place of the occurrence, and in
  that result this U+00E6 (U+00F6) stands in front of the result for what followed
  the occurrence.
\<close>

theorem NormalizeEncoding_shadowed_rules:
  "NormalizeEncoding nfc text = NormalizeEncoding_unshadowed nfc text \<and>
   apply_rule (apply_rules (take 2 replacements) s) (replacements ! 2) =
     apply_rules (take 2 replacements) s \<and>
   apply_rule (apply_rules (take 19 replacements) s) (replacements ! 19) =
     apply_rules (take 19 replacements) s \<and>
   apply_rules replacements (u @ [0x221A, 0xB6] @ v) = apply_rules replacements (u @ [0xE6] @ v) \<and>
   (\<exists>zs. apply_rules replacements (u @ [0x221A, 0xB6] @ v) =
      zs @ [0xE6] @ apply_rules replacements v) \<and>
   apply_rules replacements (u @ [0x221A, 0xEE] @ v) = apply_rules replacements (u @ [0xF6] @ v) \<and>
   (\<exists>zs. apply_rules replacements (u @ [0x221A, 0xEE] @ v) =
      zs @ [0xF6] @ apply_rules replacements v)"
proof -
  have "NormalizeEncoding nfc text = NormalizeEncoding_unshadowed nfc text"
    by (simp only: NormalizeEncoding_def NormalizeEncoding_unshadowed_def apply_rules_unshadowed)
  moreover note third_call_inert[of s] twentieth_call_inert[of s]
  moreover from pilcrow_replaced[of u v, THEN conjunct1]
  have "apply_rules replacements (u @ [0x221A, 0xB6] @ v) = apply_rules replacements (u @ [0xE6] @ v)"
    by (simp only: append_Cons append_Nil)
  moreover from pilcrow_replaced[of u v, THEN conjunct2]
  have "\<exists>zs. apply_rules replacements (u @ [0x221A, 0xB6] @ v) =
      zs @ [0xE6] @ apply_rules replacements v"
    by (simp only: append_Cons append_Nil)
  moreover from i_circumflex_replaced[of u v, THEN conjunct1]
  have "apply_rules replacements (u @ [0x221A, 0xEE] @ v) = apply_rules replacements (u @ [0xF6] @ v)"
    by (simp only: append_Cons append_Nil)
  moreover from i_circumflex_replaced[of u v, THEN conjunct2]
  have "\<exists>zs. apply_rules replacements (u @ [0x221A, 0xEE] @ v) =
      zs @ [0xF6] @ apply_rules replacements v"
    by (simp only: append_Cons append_Nil)
  ultimately show ?thesis
    by (intro conjI)
qed

theorem NormalizeEncoding_shadowed_rules_witness:
  "NormalizeEncoding nfc_inert
     (js '' x'' @ [0x221A, 0xB6] @ js ''y'' @ [0x221A, 0xEE] @ js ''z '') =
   js ''x'' @ [0xE6] @ js ''y'' @ [0xF6] @ js ''z'' \<and>
   NormalizeEncoding_unshadowed nfc_inert
     (js '' x'' @ [0x221A, 0xB6] @ js ''y'' @ [0x221A, 0xEE] @ js ''z '') =
   js ''x'' @ [0xE6] @ js ''y'' @ [0xF6] @ js ''z'' \<and>
   apply_rules replacements (js ''x'' @ [0x221A, 0xB6] @ js ''y'') =
     apply_rules replacements (js ''x'' @ [0xE6] @ js ''y'') \<and>
   apply_rules replacements ([0x221A] @ [0x221A, 0xEE] @ js ''y'') = [0xF6] @ js ''y''"
  using
    NormalizeEncoding_shadowed_rules[of nfc_inert
      "js '' x'' @ [0x221A, 0xB6] @ js ''y'' @ [0x221A, 0xEE] @ js ''z ''" "[]" "js ''x''" "js ''y''"]
  by (simp add: NormalizeEncoding_def NormalizeEncoding_unshadowed_def nfc_inert_def trim_def
      is_js_space_def js_def replacements_def replacements_unshadowed_def)

text \<open>
  C5, as stated, fails: the string U+221A U+221A U+00F6 (already trimmed and composed)
  is normalized to U+221A U+00F6, which is normalized to U+00F6.
\<close>

theorem NormalizeEncoding_twice_counterexample:
  "NormalizeEncoding nfc_inert (NormalizeEncoding nfc_inert [0x221A, 0x221A, 0xF6]) \<noteq>
   NormalizeEncoding nfc_inert [0x221A, 0x221A, 0xF6]"
  by (simp add: NormalizeEncoding_def nfc_inert_def trim_def is_js_space_def replacements_def)

text \<open>
  C5, amended. Normalizing twice is normalizing once for every string that, trimmed and
  composed, has no two adjacent U+221A, and whose normalized form is left as it is by
  trimming and composing: then no call of the chain finds its pattern in the output
  of the chain.
\<close>

theorem NormalizeEncoding_twice:
  assumes "no_occ 0x221A 0x221A (nfc (trim text))"
    and "nfc (trim (NormalizeEncoding nfc text)) = NormalizeEncoding nfc text"
  shows "NormalizeEncoding nfc (NormalizeEncoding nfc text) = NormalizeEncoding nfc text"
proof -
  have "NormalizeEncoding nfc (NormalizeEncoding nfc text) =
        apply_rules replacements (NormalizeEncoding nfc text)"
    by (simp only: NormalizeEncoding_def[of nfc "NormalizeEncoding nfc text"] assms(2))
  also have "\<dots> = NormalizeEncoding nfc text"
    unfolding NormalizeEncoding_def[of nfc "text"]
    using replacements_led assms(1) by (rule apply_rules_twice)
  finally show ?thesis .
qed

theorem NormalizeEncoding_twice_witness:
  "no_occ 0x221A 0x221A (nfc_inert (trim [0x20, 0x221A, 0xF2, 0x221A, 0xB6])) \<and>
   nfc_inert (trim (NormalizeEncoding nfc_inert [0x20, 0x221A, 0xF2, 0x221A, 0xB6])) =
     NormalizeEncoding nfc_inert [0x20, 0x221A, 0xF2, 0x221A, 0xB6] \<and>
   NormalizeEncoding nfc_inert (NormalizeEncoding nfc_inert [0x20, 0x221A, 0xF2, 0x221A, 0xB6]) =
     NormalizeEncoding nfc_inert [0x20, 0x221A, 0xF2, 0x221A, 0xB6] \<and>
   NormalizeEncoding nfc_inert [0x20, 0x221A, 0xF2, 0x221A, 0xB6] = [0xD8, 0xE6]"
proof -
  have n: "NormalizeEncoding nfc_inert [0x20, 0x221A, 0xF2, 0x221A, 0xB6] = [0xD8, 0xE6]"
    by (simp add: NormalizeEncoding_def nfc_inert_def trim_def is_js_space_def replacements_def)
  have a: "no_occ 0x221A 0x221A (nfc_inert (trim [0x20, 0x221A, 0xF2, 0x221A, 0xB6]))"
    by (simp add: nfc_inert_def trim_def is_js_space_def)
  have b: "nfc_inert (trim (NormalizeEncoding nfc_inert [0x20, 0x221A, 0xF2, 0x221A, 0xB6])) =
     NormalizeEncoding nfc_inert [0x20, 0x221A, 0xF2, 0x221A, 0xB6]"
    unfolding n by (simp add: nfc_inert_def trim_def is_js_space_def)
  from NormalizeEncoding_twice[OF a b] a b n show ?thesis by simp
qed

section \<open>Facts about the page collector\<close>

lemma ConsoleErrorsAndWarnings_fields [simp]:
  "aspr_data (ConsoleErrorsAndWarnings st) = aspr_data st"
  "next_page_link (ConsoleErrorsAndWarnings st) = next_page_link st"
  "page_count (ConsoleErrorsAndWarnings st) = page_count st"
  "errors (ConsoleErrorsAndWarnings st) = errors st"
  "warnings (ConsoleErrorsAndWarnings st) = warnings st"
  by (simp_all add: ConsoleErrorsAndWarnings_def)

lemma RetrieveAbstract_fields [simp]:
  "aspr_data (snd (RetrieveAbstract nfc r title st)) = aspr_data st"
  "next_page_link (snd (RetrieveAbstract nfc r title st)) = next_page_link st"
  "page_count (snd (RetrieveAbstract nfc r title st)) = page_count st"
  "errors (snd (RetrieveAbstract nfc r title st)) = errors st"
  by (simp_all add: RetrieveAbstract_def Let_def split: option.split)

lemma RetrieveCitingPapersLink_fields [simp]:
  "aspr_data (snd (RetrieveCitingPapersLink pg i r title st)) = aspr_data st"
  "next_page_link (snd (RetrieveCitingPapersLink pg i r title st)) = next_page_link st"
  "page_count (snd (RetrieveCitingPapersLink pg i r title st)) = page_count st"
  "errors (snd (RetrieveCitingPapersLink pg i r title st)) = errors st"
  by (simp_all add: RetrieveCitingPapersLink_def Let_def split: option.split)

lemma make_entry_keys [simp]: "map fst (make_entry t a d c ab l cl) = entry_keys"
  by (simp add: make_entry_def entry_keys_def)

lemma collect_rows_quota_met:
  "collection_count \<le> length (aspr_data st) \<Longrightarrow> collect_rows nfc collection_count pg i rs st = Inr st"
  by (cases rs) simp_all

lemma collect_rows_frame:
  "collect_rows nfc cc pg i rs st = Inr st' \<Longrightarrow>
   next_page_link st' = next_page_link st \<and> page_count st' = page_count st \<and>
   errors st' = errors st"
  by (induction rs arbitrary: st i)
    (auto simp add: Let_def split_beta split: if_splits option.splits)

lemma collect_rows_bound:
  "collect_rows nfc cc pg i rs st = Inr st' \<Longrightarrow> length (aspr_data st) \<le> cc \<Longrightarrow>
   length (aspr_data st') \<le> cc"
  by (induction rs arbitrary: st i)
    (auto simp add: Let_def split_beta split: if_splits option.splits)

lemma collect_rows_keys:
  "collect_rows nfc cc pg i rs st = Inr st' \<Longrightarrow>
   list_all (\<lambda>e. map fst e = entry_keys) (aspr_data st) \<Longrightarrow>
   list_all (\<lambda>e. map fst e = entry_keys) (aspr_data st')"
  by (induction rs arbitrary: st i)
    (auto simp add: Let_def split_beta split: if_splits option.splits)

lemma collect_rows_prefix:
  "collect_rows nfc cc pg i rs st = Inr st' \<Longrightarrow> \<exists>new. aspr_data st' = aspr_data st @ new"
  by (induction rs arbitrary: st i)
    (fastforce simp add: Let_def split_beta split: if_splits option.splits)+

lemma collect_rows_complete:
  "list_all complete_row rs \<Longrightarrow> \<exists>st'. collect_rows nfc cc pg i rs st = Inr st'"
  by (induction rs arbitrary: st i)
    (auto simp add: Let_def split_beta complete_row_def)

lemma collect_rows_grows:
  "collect_rows nfc cc pg i rs st = Inr st' \<Longrightarrow> rs \<noteq> [] \<Longrightarrow> length (aspr_data st) < cc \<Longrightarrow>
   length (aspr_data st) < length (aspr_data st')"
proof (cases rs)
  case Nil
  assume "rs \<noteq> []" with Nil show ?thesis by simp
next
  case (Cons r rest)
  assume run: "collect_rows nfc cc pg i rs st = Inr st'" and lt: "length (aspr_data st) < cc"
  from run lt Cons obtain s1 where
    s1: "collect_rows nfc cc pg (Suc i) rest s1 = Inr st'"
       "length (aspr_data s1) = Suc (length (aspr_data st))"
    by (auto simp add: Let_def split_beta split: if_splits option.splits)
  from collect_rows_prefix[OF s1(1)] s1(2) show ?thesis by auto
qed


lemma page_no_results_view:
  "\<not> results_view (doc (page_count st)) \<Longrightarrow>
   collect_aspr_page_data nfc doc cc st =
     Inr (ConsoleErrorsAndWarnings
            (st\<lparr>errors := errors st @ [js ''Selector #maincontent NOT found.'']\<rparr>))"
  by (simp add: collect_aspr_page_data_def)

lemma page_no_next_page:
  "results_view (doc (page_count st)) \<Longrightarrow> \<not> next_page (doc (page_count st)) \<Longrightarrow>
   collect_aspr_page_data nfc doc cc st =
     Inr (ConsoleErrorsAndWarnings
            (st\<lparr>next_page_link := None,
                warnings := warnings st @
                  [js ''Next page link NOT found. Collection quantity may run short.'']\<rparr>))"
  by (simp add: collect_aspr_page_data_def)

lemma page_no_rows:
  "results_view (doc (page_count st)) \<Longrightarrow> next_page (doc (page_count st)) \<Longrightarrow>
   rows (doc (page_count st)) = [] \<Longrightarrow>
   collect_aspr_page_data nfc doc cc st =
     Inr (ConsoleErrorsAndWarnings
            (st\<lparr>next_page_link := Some (page_count st),
                errors := errors st @ [js ''No search results found.'']\<rparr>))"
  by (simp add: collect_aspr_page_data_def)

lemma page_rows:
  "results_view (doc (page_count st)) \<Longrightarrow> next_page (doc (page_count st)) \<Longrightarrow>
   rows (doc (page_count st)) \<noteq> [] \<Longrightarrow>
   collect_aspr_page_data nfc doc cc st =
     collect_rows nfc cc (doc (page_count st)) 0 (rows (doc (page_count st)))
       (st\<lparr>next_page_link := Some (page_count st)\<rparr>)"
  by (simp add: collect_aspr_page_data_def Let_def)

lemma page_cases:
  obtains (no_view) "\<not> results_view (doc (page_count st))"
  | (no_next) "results_view (doc (page_count st))" "\<not> next_page (doc (page_count st))"
  | (no_rows) "results_view (doc (page_count st))" "next_page (doc (page_count st))"
      "rows (doc (page_count st)) = []"
  | (some_rows) "results_view (doc (page_count st))" "next_page (doc (page_count st))"
      "rows (doc (page_count st)) \<noteq> []"
  by blast

lemma page_page_count:
  assumes "collect_aspr_page_data nfc doc cc st = Inr st1"
  shows "page_count st1 = page_count st"
proof (cases rule: page_cases[of doc st])
  case some_rows
  with assms collect_rows_frame show ?thesis by (fastforce simp add: page_rows)
qed (use assms in \<open>auto simp add: page_no_results_view page_no_next_page page_no_rows\<close>)

lemma page_bound:
  assumes "collect_aspr_page_data nfc doc cc st = Inr st1" and "length (aspr_data st) \<le> cc"
  shows "length (aspr_data st1) \<le> cc"
proof (cases rule: page_cases[of doc st])
  case some_rows
  with assms collect_rows_bound show ?thesis by (fastforce simp add: page_rows)
qed (use assms in \<open>auto simp add: page_no_results_view page_no_next_page page_no_rows\<close>)

lemma page_keys:
  assumes "collect_aspr_page_data nfc doc cc st = Inr st1"
    and "list_all (\<lambda>e. map fst e = entry_keys) (aspr_data st)"
  shows "list_all (\<lambda>e. map fst e = entry_keys) (aspr_data st1)"
proof (cases rule: page_cases[of doc st])
  case some_rows
  with assms collect_rows_keys show ?thesis by (fastforce simp add: page_rows)
qed (use assms in \<open>auto simp add: page_no_results_view page_no_next_page page_no_rows\<close>)

lemma page_complete:
  assumes "list_all complete_row (rows (doc (page_count st)))"
  shows "\<exists>st1. collect_aspr_page_data nfc doc cc st = Inr st1"
proof (cases rule: page_cases[of doc st])
  case some_rows
  with assms collect_rows_complete show ?thesis by (simp add: page_rows)
qed (simp_all add: page_no_results_view page_no_next_page page_no_rows)

section \<open>Facts about the loop\<close>

lemma collect_loop_data_induct:
  assumes "collect_loop nfc doc cc st = Some (Inr st')"
    and "Q (aspr_data st)"
    and "\<And>s s1. Q (aspr_data s) \<Longrightarrow> collect_aspr_page_data nfc doc cc s = Inr s1 \<Longrightarrow>
           Q (aspr_data s1)"
  shows "Q (aspr_data st')"
proof -
  have "collect_loop nfc doc cc st = Some y \<Longrightarrow>
        (\<forall>st'. y = Inr st' \<longrightarrow> Q (aspr_data st) \<longrightarrow>
           (\<forall>s s1. Q (aspr_data s) \<longrightarrow> collect_aspr_page_data nfc doc cc s = Inr s1 \<longrightarrow>
              Q (aspr_data s1)) \<longrightarrow> Q (aspr_data st'))" for y
  proof (induction nfc doc cc st y rule: collect_loop.raw_induct[rotated 1, consumes 1])
    case (1 w nfc doc cc st y)
    show ?case
    proof (intro allI impI)
      fix st'
      assume y: "y = Inr st'" and q: "Q (aspr_data st)"
        and step: "\<forall>s s1. Q (aspr_data s) \<longrightarrow> collect_aspr_page_data nfc doc cc s = Inr s1 \<longrightarrow>
              Q (aspr_data s1)"
      show "Q (aspr_data st')"
      proof (cases "length (aspr_data st) < cc")
        case False
        with 1(2) y q show ?thesis by simp
      next
        case True
        show ?thesis
        proof (cases "collect_aspr_page_data nfc doc cc st")
          case (Inl e)
          with 1(2) True y show ?thesis by simp
        next
          case (Inr st1)
          with step q have q1: "Q (aspr_data st1)" by blast
          show ?thesis
          proof (cases "cc \<le> length (aspr_data st1)")
            case True
            with 1(2) \<open>length (aspr_data st) < cc\<close> Inr y q1 show ?thesis by simp
          next
            case False
            show ?thesis
            proof (cases "next_page_link st1")
              case None
              with 1(2) \<open>length (aspr_data st) < cc\<close> Inr False y q1 show ?thesis by auto
            next
              case (Some link)
              let ?s = "st1\<lparr>events := events st1 @ [Click_next_page link, Wait (2 * base_load_buffer_ms)],
                          page_count := Suc (page_count st1)\<rparr>"
              from 1(2) \<open>length (aspr_data st) < cc\<close> Inr False Some
              have "w nfc doc cc ?s = Some y" by simp
              from 1(1)[OF this] y q1 step show ?thesis by simp
            qed
          qed
        qed
      qed
    qed
  qed
  with assms show ?thesis by blast
qed

lemma collect_loop_bound:
  "collect_loop nfc doc cc st = Some (Inr st') \<Longrightarrow> length (aspr_data st) \<le> cc \<Longrightarrow>
   length (aspr_data st') \<le> cc"
  by (erule collect_loop_data_induct[where Q = "\<lambda>d. length d \<le> cc"]) (auto intro: page_bound)

lemma collect_loop_keys:
  "collect_loop nfc doc cc st = Some (Inr st') \<Longrightarrow>
   list_all (\<lambda>e. map fst e = entry_keys) (aspr_data st) \<Longrightarrow>
   list_all (\<lambda>e. map fst e = entry_keys) (aspr_data st')"
  by (erule collect_loop_data_induct[where Q = "list_all (\<lambda>e. map fst e = entry_keys)"])
    (auto intro: page_keys)

section \<open>Facts for running the examples\<close>

lemma replace_pair_no_lead: "a \<notin> set s \<Longrightarrow> replace_pair a b c s = s"
  by (induction a b c s rule: replace_pair.induct) auto

lemma apply_rules_no_lead: "led_by a rs \<Longrightarrow> a \<notin> set s \<Longrightarrow> apply_rules rs s = s"
  by (induction rs arbitrary: s) (auto simp add: led_by_def replace_pair_no_lead)

lemma NormalizeEncoding_plain:
  "0x221A \<notin> set (nfc (trim s)) \<Longrightarrow> NormalizeEncoding nfc s = nfc (trim s)"
  unfolding NormalizeEncoding_def using replacements_led by (rule apply_rules_no_lead)

lemma replicate_5: "replicate 5 x = [x, x, x, x, x]"
  by (simp add: numeral_eq_Suc)

lemma replicate_2: "replicate 2 x = [x, x]"
  by (simp add: numeral_eq_Suc)

lemma full_row_texts:
  "NormalizeEncoding nfc_inert (js '' T '') = js ''T''"
  "NormalizeEncoding nfc_inert (trim (js ''A '') @ js '', '' @ trim (js ''B'')) = js ''A, B''"
  "NormalizeEncoding nfc_inert (js ''S'') = js ''S''"
  "trim (js '' 2020'') = js ''2020''"
  "trim (js ''7'') = js ''7''"
  by (simp_all add: NormalizeEncoding_plain nfc_inert_def trim_def js_def is_js_space_def)

lemma collect_rows_full_row:
  "length (aspr_data st) < cc \<Longrightarrow>
   collect_rows nfc_inert cc (listing n b) i (full_row # rs) st =
   collect_rows nfc_inert cc (listing n b) (Suc i) rs
     (st\<lparr>events := events st @
            [Click_abstract, Wait base_load_buffer_ms, Click_dialog, Wait base_load_buffer_ms],
         aspr_data := aspr_data st @ [full_entry]\<rparr>)"
  by (simp add: full_row_def listing_def RetrieveAbstract_def RetrieveCitingPapersLink_def
      Let_def full_row_texts full_entry_def)


lemma finish_fields [simp]:
  "aspr_data (finish st) = aspr_data st"
  "errors (finish st) = errors st"
  "warnings (finish st) = warnings st"
  "page_count (finish st) = page_count st"
  "next_page_link (finish st) = next_page_link st"
  by (simp_all add: finish_def DownlaodResultsAsCSV_def split: list.split)

lemma automate_aspr_Inr:
  "automate_aspr nfc doc cc = Some (Inr st) \<Longrightarrow>
   \<exists>st1. collect_loop nfc doc cc (initial_state\<lparr>events := [Console_clear]\<rparr>) = Some (Inr st1) \<and>
     st = finish st1"
  by (auto simp add: automate_aspr_def collect_aspr_data_def split: option.splits sum.splits)

lemma collect_rows_full_row':
  "length (aspr_data st) < cc \<Longrightarrow>
   collect_rows nfc_inert cc (listing n b) i (full_row # rs) st =
   collect_rows nfc_inert cc (listing n b) (Suc i) rs
     (st\<lparr>events := events st @ reveal, aspr_data := aspr_data st @ [full_entry]\<rparr>)"
  by (simp add: collect_rows_full_row reveal_def del: collect_rows.simps)

lemma listing_fields [simp]:
  "results_view (listing n b)" "next_page (listing n b) = b" "rows (listing n b) = replicate n full_row"
  by (simp_all add: listing_def)

lemma no_region_fields [simp]: "\<not> results_view no_region"
  by (simp add: no_region_def)

text \<open>Scenario A: quota 3, one page of 5 rows with a next-page link.\<close>

lemma scenario_A_loop:
  "collect_loop nfc_inert (\<lambda>k. listing 5 True) 3 (initial_state\<lparr>events := [Console_clear]\<rparr>) =
   Some (Inr \<lparr>aspr_data = [full_entry, full_entry, full_entry], next_page_link = Some 0,
      page_count = 0, errors = [], warnings = [],
      events = Console_clear # reveal @ reveal @ reveal\<rparr>)"
  by (subst collect_loop.simps)
    (simp add: initial_state_def page_rows replicate_5 collect_rows_full_row' collect_rows_quota_met
      del: collect_rows.simps)

section \<open>The claims about the collection\<close>

text \<open>
  C4. A run that ends holds at most \<open>collection_count\<close> records; and the row loop,
  entered or continued with the quota met, leaves the state as it is: it visits no
  further row and appends nothing.
\<close>

theorem records_within_quota:
  "(automate_aspr nfc doc collection_count = Some (Inr st) \<longrightarrow>
      length (aspr_data st) \<le> collection_count) \<and>
   (collection_count \<le> length (aspr_data s) \<longrightarrow>
      collect_rows nfc collection_count pg i rs s = Inr s)"
proof (intro conjI impI)
  assume "automate_aspr nfc doc collection_count = Some (Inr st)"
  then obtain st1 where
    loop: "collect_loop nfc doc collection_count (initial_state\<lparr>events := [Console_clear]\<rparr>) = Some (Inr st1)"
    and st: "st = finish st1"
    by (auto dest: automate_aspr_Inr)
  from loop have "length (aspr_data st1) \<le> collection_count"
    by (rule collect_loop_bound) (simp add: initial_state_def)
  with st show "length (aspr_data st) \<le> collection_count" by simp
next
  assume "collection_count \<le> length (aspr_data s)"
  then show "collect_rows nfc collection_count pg i rs s = Inr s"
    by (rule collect_rows_quota_met)
qed

theorem records_within_quota_witness:
  "\<exists>st. automate_aspr nfc_inert (\<lambda>k. listing 5 True) 3 = Some (Inr st) \<and>
     aspr_data st = [full_entry, full_entry, full_entry] \<and>
     length (aspr_data st) \<le> 3 \<and>
     collect_rows nfc_inert 3 (listing 5 True) 3 [full_row, full_row] st = Inr st"
proof -
  obtain st where run: "automate_aspr nfc_inert (\<lambda>k. listing 5 True) 3 = Some (Inr st)"
    and data: "aspr_data st = [full_entry, full_entry, full_entry]"
    by (simp add: automate_aspr_def collect_aspr_data_def scenario_A_loop)
  from records_within_quota[of nfc_inert "\<lambda>k. listing 5 True" 3 st st "listing 5 True" 3
      "[full_row, full_row]"] run data
  show ?thesis by simp
qed

text \<open>
  C6. Every record of a run that ends has the seven keys \<open>title\<close>, \<open>authors\<close>,
  \<open>published_online_date\<close>, \<open>cited_by_count\<close>, \<open>abstract\<close>, \<open>article_link\<close> and
  \<open>all_citing_papers_link\<close>, in this order and no other, each with a string as its
  value.
\<close>

theorem records_have_seven_keys:
  "automate_aspr nfc doc collection_count = Some (Inr st) \<Longrightarrow> e \<in> set (aspr_data st) \<Longrightarrow>
   map fst e = entry_keys \<and> length e = 7 \<and> distinct (map fst e)"
proof -
  assume "automate_aspr nfc doc collection_count = Some (Inr st)" and e: "e \<in> set (aspr_data st)"
  then obtain st1 where
    loop: "collect_loop nfc doc collection_count (initial_state\<lparr>events := [Console_clear]\<rparr>) = Some (Inr st1)"
    and st: "st = finish st1"
    by (auto dest: automate_aspr_Inr)
  from loop have "list_all (\<lambda>e. map fst e = entry_keys) (aspr_data st1)"
    by (rule collect_loop_keys) (simp add: initial_state_def)
  with st e have keys: "map fst e = entry_keys"
    by (simp add: list_all_iff)
  have "length (map fst e) = 7" and "distinct (map fst e)"
    unfolding keys by (simp_all add: entry_keys_def)
  then have "length e = 7" and "distinct (map fst e)"
    by (simp_all only: length_map)
  with keys show ?thesis by blast
qed

theorem records_have_seven_keys_witness:
  "\<exists>st. automate_aspr nfc_inert (\<lambda>k. listing 5 True) 3 = Some (Inr st) \<and>
     full_entry \<in> set (aspr_data st) \<and>
     map fst full_entry = entry_keys \<and> length full_entry = 7 \<and> distinct (map fst full_entry)"
proof -
  obtain st where run: "automate_aspr nfc_inert (\<lambda>k. listing 5 True) 3 = Some (Inr st)"
    and data: "full_entry \<in> set (aspr_data st)"
    by (simp add: automate_aspr_def collect_aspr_data_def scenario_A_loop)
  from records_have_seven_keys[OF run data] run data show ?thesis by blast
qed

section \<open>Facts about pages that add no record\<close>

lemma page_fatal:
  "fatal_page (doc (page_count st)) \<Longrightarrow>
   collect_aspr_page_data nfc doc cc st = Inr (after_fatal_page (doc (page_count st)) st)"
  by (auto simp add: fatal_page_def after_fatal_page_def fatal_message_def
      page_no_results_view page_no_rows)

lemma after_fatal_page_fields [simp]:
  "aspr_data (after_fatal_page pg st) = aspr_data st"
  "page_count (after_fatal_page pg st) = page_count st"
  "next_page_link (after_fatal_page pg st) =
     (if results_view pg then Some (page_count st) else next_page_link st)"
  by (simp_all add: after_fatal_page_def)

lemma loop_fatal_page:
  assumes "length (aspr_data st) < cc" and "fatal_page (doc (page_count st))"
  shows "collect_loop nfc doc cc st =
     (case next_page_link (after_fatal_page (doc (page_count st)) st) of
        None \<Rightarrow> Some (Inr (no_next_link (after_fatal_page (doc (page_count st)) st)))
      | Some link \<Rightarrow>
          collect_loop nfc doc cc (advance link (after_fatal_page (doc (page_count st)) st)))"
  using assms
  by (subst collect_loop.simps)
    (simp add: page_fatal no_next_link_def advance_def split: option.split)

lemma advance_fields [simp]:
  "aspr_data (advance link st) = aspr_data st"
  "page_count (advance link st) = Suc (page_count st)"
  "next_page_link (advance link st) = next_page_link st"
  by (simp_all add: advance_def)

text \<open>
  From some page on every page is fatal, the quota is not met, and a next-page link
  is held or found: the loop does not end.
\<close>

lemma loop_forever:
  assumes fatal: "\<And>k. k0 \<le> k \<Longrightarrow> fatal_page (doc k)"
    and "k0 \<le> page_count st" and "length (aspr_data st) < cc"
    and "next_page_link st \<noteq> None \<or> results_view (doc (page_count st))"
  shows "collect_loop nfc doc cc st = None"
proof -
  have "collect_loop nfc doc cc st = Some y \<Longrightarrow>
        (\<forall>k\<ge>k0. fatal_page (doc k)) \<longrightarrow> k0 \<le> page_count st \<longrightarrow> length (aspr_data st) < cc \<longrightarrow>
        (next_page_link st \<noteq> None \<or> results_view (doc (page_count st))) \<longrightarrow> False" for y
  proof (induction nfc doc cc st y rule: collect_loop.raw_induct[rotated 1, consumes 1])
    case (1 w nfc doc cc st y)
    show ?case
    proof (intro impI)
      assume f: "\<forall>k\<ge>k0. fatal_page (doc k)" and k: "k0 \<le> page_count st"
        and lt: "length (aspr_data st) < cc"
        and held: "next_page_link st \<noteq> None \<or> results_view (doc (page_count st))"
      let ?s1 = "after_fatal_page (doc (page_count st)) st"
      from f k have fp: "fatal_page (doc (page_count st))" by blast
      from held have "next_page_link ?s1 \<noteq> None" by auto
      then obtain link where link: "next_page_link ?s1 = Some link" by blast
      from 1(2) lt have "w nfc doc cc (advance link ?s1) = Some y"
        using link fp by (simp add: page_fatal advance_def)
      from 1(1)[OF this] f k lt link show False by simp
    qed
  qed
  with assms show ?thesis by (cases "collect_loop nfc doc cc st") auto
qed

text \<open>
  A page with the results region and no next-page link ends the loop, when no row
  before it throws.
\<close>

lemma loop_ends:
  assumes last: "results_view (doc k)" "\<not> next_page (doc k)"
    and rows: "\<And>j. j < k \<Longrightarrow> list_all complete_row (rows (doc j))"
  shows "page_count st \<le> k \<Longrightarrow> \<exists>st'. collect_loop nfc doc cc st = Some (Inr st') \<and> page_count st' \<le> k"
proof (induction "k - page_count st" arbitrary: st)
  case 0
  then have pc: "page_count st = k" by simp
  show ?case
  proof (cases "length (aspr_data st) < cc")
    case False
    then show ?thesis using pc by (subst collect_loop.simps) simp
  next
    case True
    then show ?thesis using pc last
      by (subst collect_loop.simps) (simp add: page_no_next_page)
  qed
next
  case (Suc n)
  then have pc: "page_count st < k" by simp
  show ?case
  proof (cases "length (aspr_data st) < cc")
    case False
    then show ?thesis using pc by (subst collect_loop.simps) simp
  next
    case True
    from rows[OF pc] obtain st1 where page: "collect_aspr_page_data nfc doc cc st = Inr st1"
      using page_complete by blast
    then have pc1: "page_count st1 = page_count st" by (rule page_page_count)
    show ?thesis
    proof (cases "cc \<le> length (aspr_data st1)")
      case True
      then show ?thesis using \<open>length (aspr_data st) < cc\<close> page pc pc1
        by (subst collect_loop.simps) simp
    next
      case False
      show ?thesis
      proof (cases "next_page_link st1")
        case None
        then show ?thesis using \<open>length (aspr_data st) < cc\<close> page pc pc1 False
          by (subst collect_loop.simps) simp
      next
        case (Some link)
        let ?s = "st1\<lparr>events := events st1 @ [Click_next_page link, Wait (2 * base_load_buffer_ms)],
                          page_count := Suc (page_count st1)\<rparr>"
        have "n = k - page_count ?s" "page_count ?s \<le> k"
          using Suc(2) pc pc1 by simp_all
        from Suc(1)[OF this] obtain st' where
          "collect_loop nfc doc cc ?s = Some (Inr st')" "page_count st' \<le> k" by blast
        then show ?thesis using \<open>length (aspr_data st) < cc\<close> page False Some
          by (subst collect_loop.simps) simp
      qed
    qed
  qed
qed

section \<open>The claims about the pagination loop\<close>

lemma js_append: "js a @ js b = js (a @ b)"
  by (simp add: js_def)

lemma char_of_48: "char_of (48 :: nat) = CHR ''0''"
  by code_simp

lemma char_of_49: "char_of (49 :: nat) = CHR ''1''"
  by code_simp

lemma scenario_D_first_page:
  "collect_loop nfc_inert (\<lambda>k. if k = 0 then listing 2 True else no_region) 10
     (initial_state\<lparr>events := [Console_clear]\<rparr>) =
   collect_loop nfc_inert (\<lambda>k. if k = 0 then listing 2 True else no_region) 10
     \<lparr>aspr_data = [full_entry, full_entry], next_page_link = Some 0, page_count = 1,
      errors = [], warnings = [],
      events = Console_clear # reveal @ reveal @
        [Click_next_page 0, Wait (2 * base_load_buffer_ms)]\<rparr>"
  by (subst collect_loop.simps)
    (simp add: initial_state_def page_rows replicate_2 collect_rows_full_row'
      del: collect_rows.simps(2))

text \<open>
  C1, as stated, fails. Scenario D: quota 10, the first page gives 2 records, and from
  the second page on the results region is missing. The collector pushes its error and
  returns, the loop finds the link of the first page still in \<open>next_page_link\<close>, clicks
  it and goes on: the run never ends and nothing is exported. And a page with a
  next-page link and no row does not end the loop either: the loop clicks the link
  and collects the second page.
\<close>

theorem fatal_page_stops_counterexample:
  "automate_aspr nfc_inert (\<lambda>k. if k = 0 then listing 2 True else no_region) 10 = None \<and>
   automate_aspr nfc_inert (\<lambda>k. if k = 0 then listing 0 True else listing 4 False) 10 =
     Some (Inr \<lparr>aspr_data = [], next_page_link = None, page_count = 1,
       errors = [js ''No search results found.'', js ''Next page link not found on page 1.''],
       warnings = [js ''Next page link NOT found. Collection quantity may run short.''],
       events = [Console_clear] @
         report [js ''No search results found.''] [] @
         [Click_next_page 0, Wait 5000] @
         report [js ''No search results found.'']
           [js ''Next page link NOT found. Collection quantity may run short.''] @
         [Console_log_json [], Console_warn (js ''No data available to download.'')] @
         report [js ''No search results found.'', js ''Next page link not found on page 1.'']
           [js ''Next page link NOT found. Collection quantity may run short.'']\<rparr>)"
proof -
  have "collect_loop nfc_inert (\<lambda>k. if k = 0 then listing 2 True else no_region) 10
     \<lparr>aspr_data = [full_entry, full_entry], next_page_link = Some 0, page_count = 1,
      errors = [], warnings = [],
      events = Console_clear # reveal @ reveal @
        [Click_next_page 0, Wait (2 * base_load_buffer_ms)]\<rparr> = None"
    by (rule loop_forever[where ?k0.0 = 1]) (simp_all add: fatal_page_def)
  then have a: "automate_aspr nfc_inert (\<lambda>k. if k = 0 then listing 2 True else no_region) 10 = None"
    by (simp add: automate_aspr_def collect_aspr_data_def scenario_D_first_page)
  have b: "automate_aspr nfc_inert (\<lambda>k. if k = 0 then listing 0 True else listing 4 False) 10 =
     Some (Inr \<lparr>aspr_data = [], next_page_link = None, page_count = 1,
       errors = [js ''No search results found.'', js ''Next page link not found on page 1.''],
       warnings = [js ''Next page link NOT found. Collection quantity may run short.''],
       events = [Console_clear] @
         report [js ''No search results found.''] [] @
         [Click_next_page 0, Wait 5000] @
         report [js ''No search results found.'']
           [js ''Next page link NOT found. Collection quantity may run short.''] @
         [Console_log_json [], Console_warn (js ''No data available to download.'')] @
         report [js ''No search results found.'', js ''Next page link not found on page 1.'']
           [js ''Next page link NOT found. Collection quantity may run short.'']\<rparr>)"
    by (simp add: automate_aspr_def collect_aspr_data_def)
      (subst collect_loop.simps, simp add: initial_state_def page_no_rows,
       subst collect_loop.simps,
       simp add: page_no_next_page finish_def ConsoleErrorsAndWarnings_def
         DownlaodResultsAsCSV_def js_append char_of_49 base_load_buffer_ms_def)
  from a b show ?thesis by (rule conjI)
qed

text \<open>
  C1, amended. With the quota not met: when the results region is missing and no
  next-page link is held, which is the case on the first page, the collector pushes
  \<open>Selector #maincontent NOT found.\<close> and prints the buffers, and the loop pushes \<open>Next
  page link not found on page N.\<close> and ends, with the records it had. When the page has
  the region, a next-page link and no row, the collector stores the link, pushes
  \<open>No search results found.\<close> and prints the buffers, and the loop does not end: it
  clicks the link, waits, counts the page and collects again. No record is added in
  either case.
\<close>

theorem fatal_page_step:
  assumes "length (aspr_data st) < collection_count"
  shows
    "(\<not> results_view (doc (page_count st)) \<and> next_page_link st = None \<longrightarrow>
        collect_loop nfc doc collection_count st =
          Some (Inr ((ConsoleErrorsAndWarnings
             (st\<lparr>errors := errors st @ [js ''Selector #maincontent NOT found.'']\<rparr>))
               \<lparr>errors := errors st @
                  [js ''Selector #maincontent NOT found.'',
                   js ''Next page link not found on page '' @ js (dec (page_count st)) @ js ''.'']\<rparr>))) \<and>
     (results_view (doc (page_count st)) \<and> next_page (doc (page_count st)) \<and>
        rows (doc (page_count st)) = [] \<longrightarrow>
        collect_loop nfc doc collection_count st =
          collect_loop nfc doc collection_count
            ((ConsoleErrorsAndWarnings
               (st\<lparr>next_page_link := Some (page_count st),
                   errors := errors st @ [js ''No search results found.'']\<rparr>))
               \<lparr>events := events (ConsoleErrorsAndWarnings
                    (st\<lparr>next_page_link := Some (page_count st),
                        errors := errors st @ [js ''No search results found.'']\<rparr>)) @
                  [Click_next_page (page_count st), Wait (2 * base_load_buffer_ms)],
                page_count := Suc (page_count st)\<rparr>))"
proof (intro conjI impI)
  assume a: "\<not> results_view (doc (page_count st)) \<and> next_page_link st = None"
  then have "fatal_page (doc (page_count st))"
    by (simp add: fatal_page_def)
  with assms have "collect_loop nfc doc collection_count st =
     (case next_page_link (after_fatal_page (doc (page_count st)) st) of
        None \<Rightarrow> Some (Inr (no_next_link (after_fatal_page (doc (page_count st)) st)))
      | Some link \<Rightarrow>
          collect_loop nfc doc collection_count
            (advance link (after_fatal_page (doc (page_count st)) st)))"
    by (rule loop_fatal_page)
  with a show "collect_loop nfc doc collection_count st =
          Some (Inr ((ConsoleErrorsAndWarnings
             (st\<lparr>errors := errors st @ [js ''Selector #maincontent NOT found.'']\<rparr>))
               \<lparr>errors := errors st @
                  [js ''Selector #maincontent NOT found.'',
                   js ''Next page link not found on page '' @ js (dec (page_count st)) @ js ''.'']\<rparr>))"
    by (simp add: after_fatal_page_def no_next_link_def fatal_message_def
        ConsoleErrorsAndWarnings_def del: dec.simps)
next
  assume a: "results_view (doc (page_count st)) \<and> next_page (doc (page_count st)) \<and>
        rows (doc (page_count st)) = []"
  then have "fatal_page (doc (page_count st))"
    by (simp add: fatal_page_def)
  with assms have "collect_loop nfc doc collection_count st =
     (case next_page_link (after_fatal_page (doc (page_count st)) st) of
        None \<Rightarrow> Some (Inr (no_next_link (after_fatal_page (doc (page_count st)) st)))
      | Some link \<Rightarrow>
          collect_loop nfc doc collection_count
            (advance link (after_fatal_page (doc (page_count st)) st)))"
    by (rule loop_fatal_page)
  with a show "collect_loop nfc doc collection_count st =
          collect_loop nfc doc collection_count
            ((ConsoleErrorsAndWarnings
               (st\<lparr>next_page_link := Some (page_count st),
                   errors := errors st @ [js ''No search results found.'']\<rparr>))
               \<lparr>events := events (ConsoleErrorsAndWarnings
                    (st\<lparr>next_page_link := Some (page_count st),
                        errors := errors st @ [js ''No search results found.'']\<rparr>)) @
                  [Click_next_page (page_count st), Wait (2 * base_load_buffer_ms)],
                page_count := Suc (page_count st)\<rparr>)"
    by (simp add: after_fatal_page_def advance_def fatal_message_def)
qed

theorem fatal_page_step_witness:
  "length (aspr_data initial_state) < 1 \<and>
   \<not> results_view ((\<lambda>k. no_region) (page_count initial_state)) \<and>
   next_page_link initial_state = None \<and>
   collect_loop nfc_inert (\<lambda>k. no_region) 1 initial_state =
     Some (Inr \<lparr>aspr_data = [], next_page_link = None, page_count = 0,
       errors = [js ''Selector #maincontent NOT found.'',
                 js ''Next page link not found on page 0.''],
       warnings = [],
       events = report [js ''Selector #maincontent NOT found.''] []\<rparr>) \<and>
   results_view ((\<lambda>k. listing 0 True) (page_count initial_state)) \<and>
   next_page ((\<lambda>k. listing 0 True) (page_count initial_state)) \<and>
   rows ((\<lambda>k. listing 0 True) (page_count initial_state)) = [] \<and>
   collect_loop nfc_inert (\<lambda>k. listing 0 True) 1 initial_state =
   collect_loop nfc_inert (\<lambda>k. listing 0 True) 1
     \<lparr>aspr_data = [], next_page_link = Some 0, page_count = 1,
       errors = [js ''No search results found.''], warnings = [],
       events = report [js ''No search results found.''] [] @
         [Click_next_page 0, Wait (2 * base_load_buffer_ms)]\<rparr>"
proof -
  have l: "length (aspr_data initial_state) < 1"
    by (simp add: initial_state_def)
  from fatal_page_step[OF l, of "\<lambda>k. no_region" nfc_inert]
    fatal_page_step[OF l, of "\<lambda>k. listing 0 True" nfc_inert] l
  show ?thesis
    by (simp add: ConsoleErrorsAndWarnings_def initial_state_def js_append char_of_48)
qed

text \<open>
  C2. Scenario B as the program runs it: quota 10, one page of 4 rows and no next-page
  link. The collector pushes the warning and returns before it reads any row; the run
  ends with no record, the warning, and the error \<open>Next page link not found on page 0.\<close>
\<close>

theorem last_page_rows_skipped:
  "automate_aspr nfc_inert (\<lambda>k. listing 4 False) 10 =
     Some (Inr \<lparr>aspr_data = [], next_page_link = None, page_count = 0,
       errors = [js ''Next page link not found on page 0.''],
       warnings = [js ''Next page link NOT found. Collection quantity may run short.''],
       events = [Console_clear] @
         report [] [js ''Next page link NOT found. Collection quantity may run short.''] @
         [Console_log_json [], Console_warn (js ''No data available to download.'')] @
         report [js ''Next page link not found on page 0.'']
           [js ''Next page link NOT found. Collection quantity may run short.'']\<rparr>)"
  by (simp add: automate_aspr_def collect_aspr_data_def)
    (subst collect_loop.simps,
      simp add: initial_state_def page_no_next_page finish_def ConsoleErrorsAndWarnings_def
        DownlaodResultsAsCSV_def js_append char_of_48)

text \<open>
  C3, as stated, fails. Quota 1 and pages that all have a next-page link and no row:
  no page adds a record, every page gives a link to click, and the loop never ends.
  Quota 1 and a page whose first row has no \<open>span.date\<close>: reading its text throws a
  TypeError, the run ends there, and nothing is dumped or exported.
\<close>

theorem run_always_ends_counterexample:
  "automate_aspr nfc_inert (\<lambda>k. listing 0 True) 1 = None \<and>
   automate_aspr nfc_inert (\<lambda>k. \<lparr>results_view = True, next_page = True,
       rows = [full_row\<lparr>date_span := None\<rparr>], dialog_download_link = (\<lambda>i. None)\<rparr>) 1 =
     Some (Inl TypeError)"
proof -
  have "collect_loop nfc_inert (\<lambda>k. listing 0 True) 1
      (initial_state\<lparr>events := [Console_clear]\<rparr>) = None"
    by (rule loop_forever[where ?k0.0 = 0]) (simp_all add: fatal_page_def initial_state_def)
  then have a: "automate_aspr nfc_inert (\<lambda>k. listing 0 True) 1 = None"
    by (simp add: automate_aspr_def collect_aspr_data_def)
  have b: "automate_aspr nfc_inert (\<lambda>k. \<lparr>results_view = True, next_page = True,
       rows = [full_row\<lparr>date_span := None\<rparr>], dialog_download_link = (\<lambda>i. None)\<rparr>) 1 =
     Some (Inl TypeError)"
    by (simp add: automate_aspr_def collect_aspr_data_def)
      (subst collect_loop.simps,
       simp add: initial_state_def collect_aspr_page_data_def full_row_def Let_def)
  from a b show ?thesis by (rule conjI)
qed

text \<open>
  C3, amended. When page \<open>k\<close> has the results region and no next-page link, and every
  row of the pages before it has its title link, its date and its citation number,
  the loop ends after at most \<open>k + 1\<close> rounds, and the run then dumps the records and
  attempts the export: a download when there is a record, the notice otherwise.
\<close>

theorem run_ends_at_last_page:
  assumes "results_view (doc k)" and "\<not> next_page (doc k)"
    and "\<forall>j<k. list_all complete_row (rows (doc j))"
  shows "\<exists>st. automate_aspr nfc doc collection_count = Some (Inr st) \<and> page_count st \<le> k \<and>
     Console_log_json (aspr_data st) \<in> set (events st) \<and>
     (case aspr_data st of
        [] \<Rightarrow> Console_warn (js ''No data available to download.'')
      | first # _ \<Rightarrow> Download (js ''apsr_results.csv'') (csv_content first (aspr_data st)))
       \<in> set (events st)"
proof -
  from assms obtain st1 where
    loop: "collect_loop nfc doc collection_count (initial_state\<lparr>events := [Console_clear]\<rparr>) =
      Some (Inr st1)"
    and pc: "page_count st1 \<le> k"
    using loop_ends[of doc k "initial_state\<lparr>events := [Console_clear]\<rparr>" nfc collection_count]
    by (auto simp add: initial_state_def)
  from loop have "automate_aspr nfc doc collection_count = Some (Inr (finish st1))"
    by (simp add: automate_aspr_def collect_aspr_data_def)
  moreover have "Console_log_json (aspr_data st1) \<in> set (events (finish st1))"
    by (simp add: finish_def DownlaodResultsAsCSV_def ConsoleErrorsAndWarnings_def
        split: list.split)
  moreover have "(case aspr_data st1 of
        [] \<Rightarrow> Console_warn (js ''No data available to download.'')
      | first # _ \<Rightarrow> Download (js ''apsr_results.csv'') (csv_content first (aspr_data st1)))
       \<in> set (events (finish st1))"
    by (simp add: finish_def DownlaodResultsAsCSV_def ConsoleErrorsAndWarnings_def
        split: list.split)
  moreover have d: "aspr_data (finish st1) = aspr_data st1"
    by simp
  ultimately show ?thesis
    using pc by (intro exI[of _ "finish st1"]) (simp only: d finish_fields simp_thms)
qed

theorem run_ends_at_last_page_witness:
  "results_view ((\<lambda>k::nat. if k = 0 then listing 2 True else listing 4 False) 1) \<and>
   \<not> next_page ((\<lambda>k::nat. if k = 0 then listing 2 True else listing 4 False) 1) \<and>
   list_all complete_row (rows ((\<lambda>k::nat. if k = 0 then listing 2 True else listing 4 False) 0)) \<and>
   (\<exists>st. automate_aspr nfc_inert (\<lambda>k. if k = 0 then listing 2 True else listing 4 False) 10 =
        Some (Inr st) \<and> page_count st \<le> 1 \<and>
     Console_log_json (aspr_data st) \<in> set (events st) \<and>
     (case aspr_data st of
        [] \<Rightarrow> Console_warn (js ''No data available to download.'')
      | first # _ \<Rightarrow> Download (js ''apsr_results.csv'') (csv_content first (aspr_data st)))
       \<in> set (events st))"
proof -
  let ?doc = "\<lambda>k::nat. if k = 0 then listing 2 True else listing 4 False"
  have a: "results_view (?doc 1)" and b: "\<not> next_page (?doc 1)"
    by simp_all
  have c: "list_all complete_row (rows (?doc 0))"
    by (simp add: replicate_2 complete_row_def full_row_def)
  then have "\<forall>j<1. list_all complete_row (rows (?doc j))"
    by simp
  from run_ends_at_last_page[of ?doc 1 nfc_inert 10, OF a b this] a b c
  show ?thesis by simp
qed

section \<open>The claims about the retrievals, the export and the report\<close>

text \<open>
  C7. The two retrievals return a value and a state in every case; they throw nothing.
  Without the abstract button: \<open>N/A\<close>, the warning \<open>Abstract extraction failed for
  "title".\<close>, and neither click nor wait. With the button and no abstract in the row
  after the click and the wait of 2500 ms: \<open>N/A\<close> and the warning \<open>Abstract not found
  for "title".\<close> With the abstract there: its normalized text and no warning. The same
  for the link of the citing papers, with the warnings \<open>Popup initiation failed for
  "title".\<close> and \<open>Download link not found for "title".\<close>; the download link is looked up
  in the document, not in the row, and its \<open>href\<close> is returned as it is.
\<close>

theorem retrieval_protocol:
  "(\<not> abstract_button r \<longrightarrow>
      RetrieveAbstract nfc r title st =
        (js ''N/A'',
         st\<lparr>warnings := warnings st @
           [js ''Abstract extraction failed for '' @ [0x22] @ title @ [0x22, 0x2E]]\<rparr>)) \<and>
   (abstract_button r \<and> abstract_content r = None \<longrightarrow>
      RetrieveAbstract nfc r title st =
        (js ''N/A'',
         st\<lparr>events := events st @ [Click_abstract, Wait 2500],
            warnings := warnings st @
              [js ''Abstract not found for '' @ [0x22] @ title @ [0x22, 0x2E]]\<rparr>)) \<and>
   (abstract_button r \<and> abstract_content r = Some abstract_text \<longrightarrow>
      RetrieveAbstract nfc r title st =
        (NormalizeEncoding nfc abstract_text,
         st\<lparr>events := events st @ [Click_abstract, Wait 2500]\<rparr>)) \<and>
   (\<not> dialog_link r \<longrightarrow>
      RetrieveCitingPapersLink pg i r title st =
        (js ''N/A'',
         st\<lparr>warnings := warnings st @
           [js ''Popup initiation failed for '' @ [0x22] @ title @ [0x22, 0x2E]]\<rparr>)) \<and>
   (dialog_link r \<and> dialog_download_link pg i = None \<longrightarrow>
      RetrieveCitingPapersLink pg i r title st =
        (js ''N/A'',
         st\<lparr>events := events st @ [Click_dialog, Wait 2500],
            warnings := warnings st @
              [js ''Download link not found for '' @ [0x22] @ title @ [0x22, 0x2E]]\<rparr>)) \<and>
   (dialog_link r \<and> dialog_download_link pg i = Some link \<longrightarrow>
      RetrieveCitingPapersLink pg i r title st =
        (link, st\<lparr>events := events st @ [Click_dialog, Wait 2500]\<rparr>))"
  by (simp add: RetrieveAbstract_def RetrieveCitingPapersLink_def NA_def base_load_buffer_ms_def
      Let_def)

theorem retrieval_protocol_witness:
  "RetrieveAbstract nfc_inert (full_row\<lparr>abstract_button := False, dialog_link := False\<rparr>)
       (js ''T'') initial_state =
     (js ''N/A'',
      initial_state\<lparr>warnings := [js ''Abstract extraction failed for '' @ [0x22] @ js ''T'' @ [0x22, 0x2E]]\<rparr>) \<and>
   RetrieveAbstract nfc_inert (full_row\<lparr>abstract_content := None\<rparr>) (js ''T'') initial_state =
     (js ''N/A'',
      initial_state\<lparr>events := [Click_abstract, Wait 2500],
        warnings := [js ''Abstract not found for '' @ [0x22] @ js ''T'' @ [0x22, 0x2E]]\<rparr>) \<and>
   RetrieveAbstract nfc_inert full_row (js ''T'') initial_state =
     (NormalizeEncoding nfc_inert (js ''S''), initial_state\<lparr>events := [Click_abstract, Wait 2500]\<rparr>) \<and>
   RetrieveCitingPapersLink (listing 1 True) 0
       (full_row\<lparr>abstract_button := False, dialog_link := False\<rparr>) (js ''T'') initial_state =
     (js ''N/A'',
      initial_state\<lparr>warnings := [js ''Popup initiation failed for '' @ [0x22] @ js ''T'' @ [0x22, 0x2E]]\<rparr>) \<and>
   RetrieveCitingPapersLink no_region 0 (full_row\<lparr>abstract_content := None\<rparr>) (js ''T'')
       initial_state =
     (js ''N/A'',
      initial_state\<lparr>events := [Click_dialog, Wait 2500],
        warnings := [js ''Download link not found for '' @ [0x22] @ js ''T'' @ [0x22, 0x2E]]\<rparr>) \<and>
   RetrieveCitingPapersLink (listing 1 True) 0 full_row (js ''T'') initial_state =
     (js ''/c'', initial_state\<lparr>events := [Click_dialog, Wait 2500]\<rparr>)"
  using
    retrieval_protocol[of "full_row\<lparr>abstract_button := False, dialog_link := False\<rparr>" nfc_inert
      "js ''T''" initial_state "js ''S''" "listing 1 True" 0 "js ''/c''"]
    retrieval_protocol[of "full_row\<lparr>abstract_content := None\<rparr>" nfc_inert "js ''T''" initial_state
      "js ''S''" "no_region" 0 "js ''/c''"]
    retrieval_protocol[of "full_row" nfc_inert "js ''T''" initial_state
      "js ''S''" "listing 1 True" 0 "js ''/c''"]
  by (simp add: full_row_def listing_def no_region_def initial_state_def)

lemma js_append_more: "js a @ js b @ r = js (a @ b) @ r"
  by (simp add: js_def)

lemma report_lines:
  "report es ws =
     (if es = [] then []
      else Console_log ([0x0A] @ js ''Errors:'') #
           map (\<lambda>(i, e). Console_log ([0x09] @ js ''Error #'' @ js (dec i) @ js '': '' @ e))
             (enumerate 0 es)) @
     (if ws = [] then []
      else Console_log ([0x0A] @ js ''Warnings:'') #
           map (\<lambda>(i, w). Console_log ([0x09] @ js ''Warning #'' @ js (dec i) @ js '': '' @ w))
             (enumerate 0 ws))"
  by (simp add: report_def numbered_def js_append_more split_beta del: dec.simps)

lemma report_one_warning:
  "report [] [w] = [Console_log ([0x0A] @ js ''Warnings:''), Console_log ([0x09] @ js ''Warning #0: '' @ w)]"
  by (simp add: report_def numbered_def js_append char_of_48)

lemma report_one_each:
  "report [e] [w] =
     [Console_log ([0x0A] @ js ''Errors:''), Console_log ([0x09] @ js ''Error #0: '' @ e),
      Console_log ([0x0A] @ js ''Warnings:''), Console_log ([0x09] @ js ''Warning #0: '' @ w)]"
  by (simp add: report_def numbered_def js_append char_of_48)

lemma report_one_error:
  "report [e] [] = [Console_log ([0x0A] @ js ''Errors:''), Console_log ([0x09] @ js ''Error #0: '' @ e)]"
  by (simp add: report_def numbered_def js_append char_of_48)

lemma report_two_errors:
  "report [e, f] [] =
     [Console_log ([0x0A] @ js ''Errors:''), Console_log ([0x09] @ js ''Error #0: '' @ e),
      Console_log ([0x09] @ js ''Error #1: '' @ f)]"
  by (simp add: report_def numbered_def js_append char_of_48 char_of_49)

lemma no_region_loop:
  "collect_loop nfc_inert (\<lambda>k. no_region) 1 (initial_state\<lparr>events := [Console_clear]\<rparr>) =
     Some (Inr \<lparr>aspr_data = [], next_page_link = None, page_count = 0,
       errors = [js ''Selector #maincontent NOT found.'', js ''Next page link not found on page 0.''],
       warnings = [],
       events = Console_clear # report [js ''Selector #maincontent NOT found.''] []\<rparr>)"
  by (subst collect_loop.simps)
    (simp add: initial_state_def page_no_results_view ConsoleErrorsAndWarnings_def js_append
      char_of_48)

text \<open>
  C8, as stated, fails. Quota 10, a first page with one row and a next-page link, a
  second page without next-page link: on the second page the collector prints the
  warnings before it returns, so this report is on the console before the dump and
  the download; the report that follows the download is the second one.
\<close>

theorem report_before_export_counterexample:
  "automate_aspr nfc_inert (\<lambda>k. if k = 0 then listing 1 True else listing 4 False) 10 =
     Some (Inr \<lparr>aspr_data = [full_entry], next_page_link = None, page_count = 1,
       errors = [js ''Next page link not found on page 1.''],
       warnings = [js ''Next page link NOT found. Collection quantity may run short.''],
       events =
         [Console_clear,
          Click_abstract, Wait 2500, Click_dialog, Wait 2500,
          Click_next_page 0, Wait 5000,
          Console_log ([0x0A] @ js ''Warnings:''),
          Console_log ([0x09] @
            js ''Warning #0: Next page link NOT found. Collection quantity may run short.''),
          Console_log_json [full_entry],
          Download (js ''apsr_results.csv'') (csv_content full_entry [full_entry]),
          Console_log ([0x0A] @ js ''Errors:''),
          Console_log ([0x09] @ js ''Error #0: Next page link not found on page 1.''),
          Console_log ([0x0A] @ js ''Warnings:''),
          Console_log ([0x09] @
            js ''Warning #0: Next page link NOT found. Collection quantity may run short.'')]\<rparr>)"
  by (simp add: automate_aspr_def collect_aspr_data_def)
    (subst collect_loop.simps,
     simp add: initial_state_def page_rows collect_rows_full_row' del: collect_rows.simps(2),
     subst collect_loop.simps,
     simp add: page_no_next_page finish_def ConsoleErrorsAndWarnings_def
       DownlaodResultsAsCSV_def js_append char_of_49 base_load_buffer_ms_def reveal_def
       report_one_warning report_one_each)

text \<open>
  C8, amended. When the loop is left in the state \<open>st1\<close>, the run goes on with exactly
  this, in this order: it logs the dump of all records; it exports them, which is the
  download of the file \<open>apsr_results.csv\<close>, or the notice \<open>No data available to
  download.\<close> when there is no record; and then it prints the two buffers. Printing
  the buffers is, for the errors if there is one and then for the warnings if there
  is one, a heading and one numbered line for each entry. This print is the last one
  but not the only one: the page collector prints the buffers each time it returns
  early, that is, without results region, without next-page link, and without rows.
\<close>

theorem final_report_follows_export:
  "(collect_loop nfc doc collection_count st = Some (Inr st1) \<longrightarrow>
      collect_aspr_data nfc doc collection_count st =
        Some (Inr (st1\<lparr>events := events st1 @
          [Console_log_json (aspr_data st1),
           (case aspr_data st1 of
              [] \<Rightarrow> Console_warn (js ''No data available to download.'')
            | first # _ \<Rightarrow> Download (js ''apsr_results.csv'') (csv_content first (aspr_data st1)))] @
          report (errors st1) (warnings st1)\<rparr>))) \<and>
   report es ws =
     (if es = [] then []
      else Console_log ([0x0A] @ js ''Errors:'') #
           map (\<lambda>(i, e). Console_log ([0x09] @ js ''Error #'' @ js (dec i) @ js '': '' @ e))
             (enumerate 0 es)) @
     (if ws = [] then []
      else Console_log ([0x0A] @ js ''Warnings:'') #
           map (\<lambda>(i, w). Console_log ([0x09] @ js ''Warning #'' @ js (dec i) @ js '': '' @ w))
             (enumerate 0 ws)) \<and>
   (\<not> results_view (doc (page_count st)) \<longrightarrow>
      collect_aspr_page_data nfc doc collection_count st =
        Inr (st\<lparr>errors := errors st @ [js ''Selector #maincontent NOT found.''],
               events := events st @
                 report (errors st @ [js ''Selector #maincontent NOT found.'']) (warnings st)\<rparr>)) \<and>
   (results_view (doc (page_count st)) \<and> \<not> next_page (doc (page_count st)) \<longrightarrow>
      collect_aspr_page_data nfc doc collection_count st =
        Inr (st\<lparr>next_page_link := None,
               warnings := warnings st @
                 [js ''Next page link NOT found. Collection quantity may run short.''],
               events := events st @
                 report (errors st)
                   (warnings st @
                      [js ''Next page link NOT found. Collection quantity may run short.''])\<rparr>)) \<and>
   (results_view (doc (page_count st)) \<and> next_page (doc (page_count st)) \<and>
    rows (doc (page_count st)) = [] \<longrightarrow>
      collect_aspr_page_data nfc doc collection_count st =
        Inr (st\<lparr>next_page_link := Some (page_count st),
               errors := errors st @ [js ''No search results found.''],
               events := events st @
                 report (errors st @ [js ''No search results found.'']) (warnings st)\<rparr>))"
proof (intro conjI impI)
  assume "collect_loop nfc doc collection_count st = Some (Inr st1)"
  then show "collect_aspr_data nfc doc collection_count st =
        Some (Inr (st1\<lparr>events := events st1 @
          [Console_log_json (aspr_data st1),
           (case aspr_data st1 of
              [] \<Rightarrow> Console_warn (js ''No data available to download.'')
            | first # _ \<Rightarrow> Download (js ''apsr_results.csv'') (csv_content first (aspr_data st1)))] @
          report (errors st1) (warnings st1)\<rparr>))"
    by (simp add: collect_aspr_data_def finish_def DownlaodResultsAsCSV_def
        ConsoleErrorsAndWarnings_def split: list.split)
next
  show "report es ws =
     (if es = [] then []
      else Console_log ([0x0A] @ js ''Errors:'') #
           map (\<lambda>(i, e). Console_log ([0x09] @ js ''Error #'' @ js (dec i) @ js '': '' @ e))
             (enumerate 0 es)) @
     (if ws = [] then []
      else Console_log ([0x0A] @ js ''Warnings:'') #
           map (\<lambda>(i, w). Console_log ([0x09] @ js ''Warning #'' @ js (dec i) @ js '': '' @ w))
             (enumerate 0 ws))"
    by (rule report_lines)
next
  assume "\<not> results_view (doc (page_count st))"
  then show "collect_aspr_page_data nfc doc collection_count st =
        Inr (st\<lparr>errors := errors st @ [js ''Selector #maincontent NOT found.''],
               events := events st @
                 report (errors st @ [js ''Selector #maincontent NOT found.'']) (warnings st)\<rparr>)"
    by (simp add: page_no_results_view ConsoleErrorsAndWarnings_def)
next
  assume "results_view (doc (page_count st)) \<and> \<not> next_page (doc (page_count st))"
  then show "collect_aspr_page_data nfc doc collection_count st =
        Inr (st\<lparr>next_page_link := None,
               warnings := warnings st @
                 [js ''Next page link NOT found. Collection quantity may run short.''],
               events := events st @
                 report (errors st)
                   (warnings st @
                      [js ''Next page link NOT found. Collection quantity may run short.''])\<rparr>)"
    by (simp add: page_no_next_page ConsoleErrorsAndWarnings_def)
next
  assume "results_view (doc (page_count st)) \<and> next_page (doc (page_count st)) \<and>
    rows (doc (page_count st)) = []"
  then show "collect_aspr_page_data nfc doc collection_count st =
        Inr (st\<lparr>next_page_link := Some (page_count st),
               errors := errors st @ [js ''No search results found.''],
               events := events st @
                 report (errors st @ [js ''No search results found.'']) (warnings st)\<rparr>)"
    by (simp add: page_no_rows ConsoleErrorsAndWarnings_def)
qed

theorem final_report_follows_export_witness:
  "automate_aspr nfc_inert (\<lambda>k. listing 5 True) 3 =
     Some (Inr \<lparr>aspr_data = [full_entry, full_entry, full_entry], next_page_link = Some 0,
       page_count = 0, errors = [], warnings = [],
       events = Console_clear # reveal @ reveal @ reveal @
         [Console_log_json [full_entry, full_entry, full_entry],
          Download (js ''apsr_results.csv'')
            (csv_content full_entry [full_entry, full_entry, full_entry])]\<rparr>) \<and>
   automate_aspr nfc_inert (\<lambda>k. no_region) 1 =
     Some (Inr \<lparr>aspr_data = [], next_page_link = None, page_count = 0,
       errors = [js ''Selector #maincontent NOT found.'', js ''Next page link not found on page 0.''],
       warnings = [],
       events =
         [Console_clear,
          Console_log ([0x0A] @ js ''Errors:''),
          Console_log ([0x09] @ js ''Error #0: Selector #maincontent NOT found.''),
          Console_log_json [],
          Console_warn (js ''No data available to download.''),
          Console_log ([0x0A] @ js ''Errors:''),
          Console_log ([0x09] @ js ''Error #0: Selector #maincontent NOT found.''),
          Console_log ([0x09] @ js ''Error #1: Next page link not found on page 0.'')]\<rparr>) \<and>
   collect_aspr_page_data nfc_inert (\<lambda>k. no_region) 1 initial_state =
     Inr (initial_state\<lparr>errors := [js ''Selector #maincontent NOT found.''],
       events := [Console_log ([0x0A] @ js ''Errors:''),
                  Console_log ([0x09] @ js ''Error #0: Selector #maincontent NOT found.'')]\<rparr>) \<and>
   collect_aspr_page_data nfc_inert (\<lambda>k. listing 4 False) 10 initial_state =
     Inr (initial_state\<lparr>
       warnings := [js ''Next page link NOT found. Collection quantity may run short.''],
       events := [Console_log ([0x0A] @ js ''Warnings:''),
                  Console_log ([0x09] @
                    js ''Warning #0: Next page link NOT found. Collection quantity may run short.'')]\<rparr>) \<and>
   collect_aspr_page_data nfc_inert (\<lambda>k. listing 0 True) 1 initial_state =
     Inr (initial_state\<lparr>next_page_link := Some 0,
       errors := [js ''No search results found.''],
       events := [Console_log ([0x0A] @ js ''Errors:''),
                  Console_log ([0x09] @ js ''Error #0: No search results found.'')]\<rparr>)"
  using
    final_report_follows_export[of nfc_inert "\<lambda>k. listing 5 True" 3
      "initial_state\<lparr>events := [Console_clear]\<rparr>"
      "\<lparr>aspr_data = [full_entry, full_entry, full_entry], next_page_link = Some 0,
        page_count = 0, errors = [], warnings = [],
        events = Console_clear # reveal @ reveal @ reveal\<rparr>" "[]" "[]"]
    final_report_follows_export[of nfc_inert "\<lambda>k. no_region" 1
      "initial_state\<lparr>events := [Console_clear]\<rparr>"
      "\<lparr>aspr_data = [], next_page_link = None, page_count = 0,
        errors = [js ''Selector #maincontent NOT found.'', js ''Next page link not found on page 0.''],
        warnings = [],
        events = Console_clear # report [js ''Selector #maincontent NOT found.''] []\<rparr>" "[]" "[]"]
    final_report_follows_export[of nfc_inert "\<lambda>k. no_region" 1 initial_state initial_state "[]" "[]"]
    final_report_follows_export[of nfc_inert "\<lambda>k. listing 4 False" 10 initial_state initial_state
      "[]" "[]"]
    final_report_follows_export[of nfc_inert "\<lambda>k. listing 0 True" 1 initial_state initial_state
      "[]" "[]"]
    scenario_A_loop no_region_loop
  by (simp add: automate_aspr_def initial_state_def report_one_error report_two_errors
      report_one_warning js_append del: report_def)

lemma join_Cons: "ys \<noteq> [] \<Longrightarrow> join sep (x # ys) = x @ sep @ join sep ys"
  by (cases ys) simp_all

text \<open>
  C10. For a list of records that is not empty, the file is the byte-order mark U+FEFF
  followed by these lines joined by line feeds: the keys of the first record joined
  by commas, then for every record, in order, its values joined by commas, each value
  between two double quotes and otherwise unchanged.
\<close>

theorem csv_export_format:
  "jsonData \<noteq> [] \<Longrightarrow>
   DownlaodResultsAsCSV jsonData filename st =
     st\<lparr>events := events st @
       [Download filename
          ([0xFEFF] @
           join [0x0A]
             (join (js '','') (map (\<lambda>kv. js (fst kv)) (hd jsonData)) #
              map (\<lambda>row. join (js '','') (map (\<lambda>kv. [0x22] @ snd kv @ [0x22]) row)) jsonData))]\<rparr>"
  by (cases jsonData) (simp_all add: DownlaodResultsAsCSV_def csv_content_def quoted_def join_Cons)

theorem csv_export_format_witness:
  "[[(''title'', js ''a'' @ [0x22] @ js ''b''), (''authors'', js ''c,d'')],
    [(''title'', js ''e'' @ [0x0A] @ js ''f''), (''authors'', js '''')]] \<noteq> [] \<and>
   DownlaodResultsAsCSV
     [[(''title'', js ''a'' @ [0x22] @ js ''b''), (''authors'', js ''c,d'')],
      [(''title'', js ''e'' @ [0x0A] @ js ''f''), (''authors'', js '''')]]
     (js ''apsr_results.csv'') initial_state =
   initial_state\<lparr>events :=
     [Download (js ''apsr_results.csv'')
        ([0xFEFF] @ js ''title,authors'' @ [0x0A] @
         [0x22] @ js ''a'' @ [0x22] @ js ''b'' @ [0x22] @ js '','' @ [0x22] @ js ''c,d'' @ [0x22] @
         [0x0A] @
         [0x22] @ js ''e'' @ [0x0A] @ js ''f'' @ [0x22] @ js '','' @ [0x22, 0x22])]\<rparr>"
  using csv_export_format[of
      "[[(''title'', js ''a'' @ [0x22] @ js ''b''), (''authors'', js ''c,d'')],
        [(''title'', js ''e'' @ [0x0A] @ js ''f''), (''authors'', js '''')]]"
      "js ''apsr_results.csv''" initial_state]
  by (simp add: initial_state_def js_def)

end
